theory Spec2Isabelle
  imports Main "HOL-Library.Word" "HOL-Library.Multiset" "HOL-Library.List_Lexorder"
begin

section \<open>The decomposition driver of \<^verbatim>\<open>src/cmr/regularity.c\<close>\<close>

subsection \<open>Data model\<close>

text \<open>
  Pointers are addresses (natural numbers) into typed stores; a pointer that may be
  \<^verbatim>\<open>NULL\<close> is an \<open>option\<close>. The C code returns \<^verbatim>\<open>CMR_OKAY\<close> or an error code from
  every call wrapped in \<^verbatim>\<open>CMR_CALL\<close>; a failed \<^verbatim>\<open>assert\<close> aborts; dereferencing an
  invalid pointer or reading a vector outside of its range has no defined behaviour. All
  of these are values of \<open>failure\<close>, so that each of them is a branch of the model.
\<close>

type_synonym dec_ptr = nat
type_synonym task_ptr = nat
type_synonym queue_ptr = nat
type_synonym stats_ptr = nat
type_synonym size_t = "64 word"
type_synonym clock_t = int

definition SIZE_MAX :: size_t where
  "SIZE_MAX = - 1"

text \<open>
  The error codes other than \<^verbatim>\<open>CMR_OKAY\<close>. The enumeration is declared in a header
  that is not part of the sources at hand; the constructors follow the error taxonomy
  of the specification.
\<close>

datatype CMR_ERROR = OUT_OF_MEMORY | TIME_LIMIT | INVALID_INPUT | NUMERIC

datatype failure =
    Error CMR_ERROR     \<comment> \<open>a callee returned an error, passed on by \<^verbatim>\<open>CMR_CALL\<close>\<close>
  | AssertFailed        \<comment> \<open>an \<^verbatim>\<open>assert\<close> did not hold\<close>
  | InvalidPointer      \<comment> \<open>a pointer that is \<^verbatim>\<open>NULL\<close> or dangling was dereferenced\<close>
  | OutOfRange          \<comment> \<open>a vector was read outside of its range\<close>

record CMR_CHRMAT =
  numRows :: nat
  numColumns :: nat

datatype CMR_MATROID_DEC_TYPE =
    TYPE_UNKNOWN | TYPE_IRREGULAR | TYPE_ONE_SUM | TYPE_TWO_SUM | TYPE_THREE_SUM
  | TYPE_SERIES_PARALLEL | TYPE_GRAPHIC | TYPE_COGRAPHIC | TYPE_PLANAR | TYPE_R10

text \<open>
  The fields of a decomposition node that \<^verbatim>\<open>regularity.c\<close> reads or writes. The ternary
  tags \<open>regularity\<close>, \<open>graphicness\<close> and \<open>cographicness\<close> are signed integers: zero is
  unset, a positive value is regular (graphic, cographic), a negative one is not. The
  optional matrices \<open>denseMatrix\<close> and \<open>nestedMinorsMatrix\<close> are only tested against
  \<^verbatim>\<open>NULL\<close>, so they are kept as optional addresses. \<open>children\<close> is the array of
  \<open>numChildren\<close> child pointers, each of which may be \<^verbatim>\<open>NULL\<close>.
\<close>

record CMR_MATROID_DEC =
  dec_type :: CMR_MATROID_DEC_TYPE
  isTernary :: bool
  regularity :: int
  graphicness :: int
  cographicness :: int
  matrix :: CMR_CHRMAT
  parent :: "dec_ptr option"
  children :: "dec_ptr option list"
  testedTwoConnected :: bool
  testedR10 :: bool
  testedSeriesParallel :: bool
  denseMatrix :: "nat option"
  nestedMinorsMatrix :: "nat option"
  nestedMinorsLastGraphic :: size_t
  nestedMinorsLastCographic :: size_t

record CMR_REGULAR_PARAMS =
  directGraphicness :: bool
  seriesParallel :: bool
  completeTree :: bool

text \<open>
  Statistics: only the two totals are touched by the driver. The accumulated time is a
  floating-point number in C; here it is the exact sum of the clock differences, in
  clock ticks.
\<close>

record CMR_REGULAR_STATS =
  totalCount :: nat
  totalTime :: int

record DecompositionTask =
  dec :: dec_ptr
  task_next :: "task_ptr option"
  params :: CMR_REGULAR_PARAMS
  stats :: "stats_ptr option"
  startClock :: clock_t
  timeLimit :: int

record DecompositionQueue =
  head :: "task_ptr option"
  foundIrregularity :: bool

text \<open>The memory the driver works on: one store per type of block.\<close>

record state =
  decs :: "dec_ptr \<rightharpoonup> CMR_MATROID_DEC"
  tasks :: "task_ptr \<rightharpoonup> DecompositionTask"
  queues :: "queue_ptr \<rightharpoonup> DecompositionQueue"
  statistics :: "stats_ptr \<rightharpoonup> CMR_REGULAR_STATS"

subsection \<open>Tasks and the queue\<close>

text \<open>
  \<^verbatim>\<open>CMRregularityQueueEmpty\<close>: whether the head is \<^verbatim>\<open>NULL\<close>.
\<close>

definition CMRregularityQueueEmpty :: "queue_ptr \<Rightarrow> state \<Rightarrow> failure + bool" where
  "CMRregularityQueueEmpty queue s =
     (case queues s queue of
        None \<Rightarrow> Inl InvalidPointer
      | Some q \<Rightarrow> Inr (head q = None))"

text \<open>
  \<^verbatim>\<open>CMRregularityQueueRemove\<close>: reads the head, makes the head's successor the new head
  and clears the successor link of the removed task. On an empty queue the C code
  dereferences \<^verbatim>\<open>NULL\<close>: there is no result.
\<close>

definition CMRregularityQueueRemove :: "queue_ptr \<Rightarrow> state \<Rightarrow> failure + (task_ptr \<times> state)" where
  "CMRregularityQueueRemove queue s =
     (case queues s queue of
        None \<Rightarrow> Inl InvalidPointer
      | Some q \<Rightarrow>
          (case head q of
             None \<Rightarrow> Inl InvalidPointer
           | Some task \<Rightarrow>
               (case tasks s task of
                  None \<Rightarrow> Inl InvalidPointer
                | Some t \<Rightarrow>
                    Inr (task,
                      s\<lparr>queues := (queues s)(queue \<mapsto> q\<lparr>head := task_next t\<rparr>),
                         tasks := (tasks s)(task \<mapsto> t\<lparr>task_next := None\<rparr>)\<rparr>))))"

text \<open>
  \<^verbatim>\<open>CMRregularityQueueAdd\<close>: the task's successor becomes the old head, the task
  becomes the head.
\<close>

definition CMRregularityQueueAdd :: "queue_ptr \<Rightarrow> task_ptr \<Rightarrow> state \<Rightarrow> failure + state" where
  "CMRregularityQueueAdd queue task s =
     (case queues s queue of
        None \<Rightarrow> Inl InvalidPointer
      | Some q \<Rightarrow>
          (case tasks s task of
             None \<Rightarrow> Inl InvalidPointer
           | Some t \<Rightarrow>
               Inr (s\<lparr>tasks := (tasks s)(task \<mapsto> t\<lparr>task_next := head q\<rparr>),
                      queues := (queues s)(queue \<mapsto> q\<lparr>head := Some task\<rparr>)\<rparr>)))"

text \<open>
  The tasks of a queue in the order in which they would be removed: the chain of
  successor links from the head. The chain of a well-formed queue is finite; the fuel
  \<open>n\<close> bounds the number of links followed.
\<close>

fun chain :: "nat \<Rightarrow> (task_ptr \<rightharpoonup> DecompositionTask) \<Rightarrow> task_ptr option \<Rightarrow> task_ptr list option" where
  "chain n ts None = Some []"
| "chain 0 ts (Some p) = None"
| "chain (Suc n) ts (Some p) =
     (case ts p of
        None \<Rightarrow> None
      | Some t \<Rightarrow> (case chain n ts (task_next t) of None \<Rightarrow> None | Some ps \<Rightarrow> Some (p # ps)))"

subsection \<open>Collaborators that are not part of the sources\<close>

text \<open>
  The nine stage functions, the node store's operations, the block allocator, the
  debugging printer and the clock are defined in other files of the repository. The
  driver is verified for every implementation of them: they are the fields of a record
  that each operation of the driver takes as its first argument (the \<^verbatim>\<open>cmr\<close>
  environment of the C code).

  \<^item> \<open>run_stage\<close>: the stage functions. Each receives the task and the queue and may
    change the whole memory.
  \<^item> \<open>allocTask\<close>, \<open>allocQueue\<close>: \<^verbatim>\<open>CMRallocBlock\<close>, which returns the address of a new
    block or fails.
  \<^item> \<open>CMRmatroiddecCreateMatrixRoot\<close>: returns the root pointer it stored, which the
    caller asserts not to be \<^verbatim>\<open>NULL\<close>.
  \<^item> \<open>CMRmatroiddecSetAttributes\<close>: the attribute finaliser.
  \<^item> \<open>CMRmatroiddecFree\<close>: releases a subtree. It is handed the address of a pointer
    to the subtree, which is either a local variable of the caller that holds a node's
    address or the \<open>c\<close>-th entry of a node's array of children.
  \<^item> \<open>CMRchrmatPrintDense\<close>: prints a matrix (the file defines \<^verbatim>\<open>CMR_DEBUG\<close>, so the
    calls are compiled in); only its error code matters.
  \<^item> \<open>clock\<close>: the processor time at a state.
\<close>

datatype stage =
    SearchOneSum
  | TestGraphicness
  | TestCographicness
  | TestR10
  | DecomposeSeriesParallel
  | ExtendNestedMinorSequence
  | NestedMinorSequenceGraphicness
  | NestedMinorSequenceCographicness
  | NestedMinorSequenceSearchThreeSeparation

datatype dec_ref = LocalPointer dec_ptr | ChildPointer dec_ptr nat

record CMR =
  run_stage :: "stage \<Rightarrow> task_ptr \<Rightarrow> queue_ptr \<Rightarrow> state \<Rightarrow> failure + state"
  allocTask :: "state \<Rightarrow> CMR_ERROR + task_ptr"
  allocQueue :: "state \<Rightarrow> CMR_ERROR + queue_ptr"
  CMRmatroiddecCreateMatrixRoot :: "bool \<Rightarrow> CMR_CHRMAT \<Rightarrow> state \<Rightarrow> failure + (dec_ptr option \<times> state)"
  CMRmatroiddecSetAttributes :: "dec_ptr \<Rightarrow> state \<Rightarrow> failure + state"
  CMRmatroiddecFree :: "dec_ref \<Rightarrow> state \<Rightarrow> failure + state"
  CMRchrmatPrintDense :: "CMR_CHRMAT \<Rightarrow> CMR_ERROR option"
  clock :: "state \<Rightarrow> clock_t"

subsection \<open>Creating and freeing tasks and queues\<close>

definition CMRregularityTaskCreateRoot ::
  "CMR \<Rightarrow> dec_ptr \<Rightarrow> CMR_REGULAR_PARAMS \<Rightarrow> stats_ptr option \<Rightarrow> clock_t \<Rightarrow> int \<Rightarrow> state
    \<Rightarrow> failure + (task_ptr \<times> state)" where
  "CMRregularityTaskCreateRoot cmr d ps st startClk tlimit s =
     (case allocTask cmr s of
        Inl e \<Rightarrow> Inl (Error e)
      | Inr task \<Rightarrow>
          Inr (task,
            s\<lparr>tasks := (tasks s)(task \<mapsto>
                 \<lparr>dec = d, task_next = None, params = ps, stats = st,
                  startClock = startClk, timeLimit = tlimit\<rparr>)\<rparr>))"

text \<open>
  \<^verbatim>\<open>CMRregularityTaskFree\<close>: nothing for \<^verbatim>\<open>NULL\<close>; otherwise the block is released. Freeing
  a block that is not allocated is an invalid access.
\<close>

definition CMRregularityTaskFree :: "task_ptr option \<Rightarrow> state \<Rightarrow> failure + state" where
  "CMRregularityTaskFree ptask s =
     (case ptask of
        None \<Rightarrow> Inr s
      | Some task \<Rightarrow>
          (case tasks s task of
             None \<Rightarrow> Inl InvalidPointer
           | Some t \<Rightarrow> Inr (s\<lparr>tasks := (tasks s)(task := None)\<rparr>)))"

definition CMRregularityQueueCreate :: "CMR \<Rightarrow> state \<Rightarrow> failure + (queue_ptr \<times> state)" where
  "CMRregularityQueueCreate cmr s =
     (case allocQueue cmr s of
        Inl e \<Rightarrow> Inl (Error e)
      | Inr queue \<Rightarrow>
          Inr (queue,
            s\<lparr>queues := (queues s)(queue \<mapsto> \<lparr>head = None, foundIrregularity = False\<rparr>)\<rparr>))"

text \<open>
  The loop of \<^verbatim>\<open>CMRregularityQueueFree\<close>: while the head is not \<^verbatim>\<open>NULL\<close>, unlink the head
  and free it. A chain of successor links that never ends keeps the loop running: the
  result \<open>None\<close>.
\<close>

partial_function (option) QueueFree_loop :: "queue_ptr \<Rightarrow> state \<Rightarrow> (failure + state) option" where
  "QueueFree_loop queue s =
     (case queues s queue of
        None \<Rightarrow> Some (Inl InvalidPointer)
      | Some q \<Rightarrow>
          (case head q of
             None \<Rightarrow> Some (Inr s)
           | Some task \<Rightarrow>
               (case tasks s task of
                  None \<Rightarrow> Some (Inl InvalidPointer)
                | Some t \<Rightarrow>
                    (case CMRregularityTaskFree (Some task)
                            (s\<lparr>queues := (queues s)(queue \<mapsto> q\<lparr>head := task_next t\<rparr>)\<rparr>) of
                       Inl e \<Rightarrow> Some (Inl e)
                     | Inr s' \<Rightarrow> QueueFree_loop queue s'))))"

definition CMRregularityQueueFree :: "queue_ptr option \<Rightarrow> state \<Rightarrow> (failure + state) option" where
  "CMRregularityQueueFree pqueue s =
     (case pqueue of
        None \<Rightarrow> Some (Inr s)
      | Some queue \<Rightarrow>
          (case QueueFree_loop queue s of
             None \<Rightarrow> None
           | Some (Inl e) \<Rightarrow> Some (Inl e)
           | Some (Inr s') \<Rightarrow>
               (case queues s' queue of
                  None \<Rightarrow> Some (Inl InvalidPointer)
                | Some q \<Rightarrow> Some (Inr (s'\<lparr>queues := (queues s')(queue := None)\<rparr>)))))"

subsection \<open>The stage dispatcher\<close>

text \<open>
  \<^verbatim>\<open>CMRregularityTaskRun\<close>, lines 106 to 168: the chain of \<^verbatim>\<open>if\<close> and \<^verbatim>\<open>else if\<close> of the
  source, in its order. Every branch is one call of a stage wrapped in \<^verbatim>\<open>CMR_CALL\<close>,
  followed by \<^verbatim>\<open>return CMR_OKAY\<close>: the result of the branch is the result of the stage.
\<close>

definition CMRregularityTaskRun :: "CMR \<Rightarrow> task_ptr \<Rightarrow> queue_ptr \<Rightarrow> state \<Rightarrow> failure + state" where
  "CMRregularityTaskRun cmr task queue s =
     (case tasks s task of
        None \<Rightarrow> Inl InvalidPointer
      | Some t \<Rightarrow>
          (case decs s (dec t) of
             None \<Rightarrow> Inl InvalidPointer
           | Some d \<Rightarrow>
               if \<not> testedTwoConnected d then
                 run_stage cmr SearchOneSum task queue s
               else if graphicness d = 0
                 \<and> (directGraphicness (params t) \<or> numRows (matrix d) \<le> 3 \<or> numColumns (matrix d) \<le> 3) then
                 run_stage cmr TestGraphicness task queue s
               else if cographicness d = 0
                 \<and> (directGraphicness (params t) \<or> numRows (matrix d) \<le> 3 \<or> numColumns (matrix d) \<le> 3) then
                 run_stage cmr TestCographicness task queue s
               else if \<not> testedR10 d then
                 run_stage cmr TestR10 task queue s
               else if \<not> testedSeriesParallel d then
                 run_stage cmr DecomposeSeriesParallel task queue s
               else if denseMatrix d \<noteq> None then
                 run_stage cmr ExtendNestedMinorSequence task queue s
               else if nestedMinorsMatrix d \<noteq> None \<and> nestedMinorsLastGraphic d = SIZE_MAX then
                 run_stage cmr NestedMinorSequenceGraphicness task queue s
               else if nestedMinorsMatrix d \<noteq> None \<and> nestedMinorsLastCographic d = SIZE_MAX then
                 run_stage cmr NestedMinorSequenceCographicness task queue s
               else
                 run_stage cmr NestedMinorSequenceSearchThreeSeparation task queue s))"

text \<open>
  The decision table of the specification, written from its words: nine rules, each a
  guard on the node (and the parameters) and the stage it invokes, tried in order.
\<close>

definition small_or_direct :: "CMR_REGULAR_PARAMS \<Rightarrow> CMR_MATROID_DEC \<Rightarrow> bool" where
  "small_or_direct ps d =
     (directGraphicness ps \<or> numRows (matrix d) \<le> 3 \<or> numColumns (matrix d) \<le> 3)"

definition decision_table :: "((CMR_REGULAR_PARAMS \<Rightarrow> CMR_MATROID_DEC \<Rightarrow> bool) \<times> stage) list" where
  "decision_table =
     [(\<lambda>ps d. \<not> testedTwoConnected d, SearchOneSum),
      (\<lambda>ps d. graphicness d = 0 \<and> small_or_direct ps d, TestGraphicness),
      (\<lambda>ps d. cographicness d = 0 \<and> small_or_direct ps d, TestCographicness),
      (\<lambda>ps d. \<not> testedR10 d, TestR10),
      (\<lambda>ps d. \<not> testedSeriesParallel d, DecomposeSeriesParallel),
      (\<lambda>ps d. denseMatrix d \<noteq> None, ExtendNestedMinorSequence),
      (\<lambda>ps d. nestedMinorsMatrix d \<noteq> None \<and> nestedMinorsLastGraphic d = SIZE_MAX,
         NestedMinorSequenceGraphicness),
      (\<lambda>ps d. nestedMinorsMatrix d \<noteq> None \<and> nestedMinorsLastCographic d = SIZE_MAX,
         NestedMinorSequenceCographicness),
      (\<lambda>ps d. True, NestedMinorSequenceSearchThreeSeparation)]"

fun first_matching ::
  "((CMR_REGULAR_PARAMS \<Rightarrow> CMR_MATROID_DEC \<Rightarrow> bool) \<times> stage) list
    \<Rightarrow> CMR_REGULAR_PARAMS \<Rightarrow> CMR_MATROID_DEC \<Rightarrow> stage option" where
  "first_matching [] ps d = None"
| "first_matching ((guard, st) # rules) ps d =
     (if guard ps d then Some st else first_matching rules ps d)"

subsection \<open>The driver loop and the two entry points\<close>

text \<open>
  The loop that both entry points contain (lines 197 to 201 and lines 257 to 261):
  \<^verbatim>\<open>while (!CMRregularityQueueEmpty(queue) && (params->completeTree || !queue->foundIrregularity))\<close>
  with the body that removes the head and runs it. An error of the stage leaves the
  function at once. The stages are arbitrary, so the loop need not end: the result is
  then \<open>None\<close>.
\<close>

partial_function (option) regularity_loop ::
  "CMR \<Rightarrow> CMR_REGULAR_PARAMS \<Rightarrow> queue_ptr \<Rightarrow> state \<Rightarrow> (failure + state) option" where
  "regularity_loop cmr ps queue s =
     (case CMRregularityQueueEmpty queue s of
        Inl e \<Rightarrow> Some (Inl e)
      | Inr is_empty \<Rightarrow>
          (case queues s queue of
             None \<Rightarrow> Some (Inl InvalidPointer)
           | Some q \<Rightarrow>
               if \<not> is_empty \<and> (completeTree ps \<or> \<not> foundIrregularity q) then
                 (case CMRregularityQueueRemove queue s of
                    Inl e \<Rightarrow> Some (Inl e)
                  | Inr (task, s1) \<Rightarrow>
                      (case CMRregularityTaskRun cmr task queue s1 of
                         Inl e \<Rightarrow> Some (Inl e)
                       | Inr s2 \<Rightarrow> regularity_loop cmr ps queue s2))
               else Some (Inr s)))"

text \<open>\<^verbatim>\<open>if (stats) stats->totalCount++;\<close>\<close>

definition stats_count :: "stats_ptr option \<Rightarrow> state \<Rightarrow> failure + state" where
  "stats_count st s =
     (case st of
        None \<Rightarrow> Inr s
      | Some p \<Rightarrow>
          (case statistics s p of
             None \<Rightarrow> Inl InvalidPointer
           | Some x \<Rightarrow> Inr (s\<lparr>statistics := (statistics s)(p \<mapsto> x\<lparr>totalCount := totalCount x + 1\<rparr>)\<rparr>)))"

text \<open>\<^verbatim>\<open>if (stats) stats->totalTime += (clock() - time) * 1.0 / CLOCKS_PER_SEC;\<close>\<close>

definition stats_time :: "CMR \<Rightarrow> stats_ptr option \<Rightarrow> clock_t \<Rightarrow> state \<Rightarrow> failure + state" where
  "stats_time cmr st time s =
     (case st of
        None \<Rightarrow> Inr s
      | Some p \<Rightarrow>
          (case statistics s p of
             None \<Rightarrow> Inl InvalidPointer
           | Some x \<Rightarrow>
               Inr (s\<lparr>statistics := (statistics s)(p \<mapsto> x\<lparr>totalTime := totalTime x + (clock cmr s - time)\<rparr>)\<rparr>)))"

text \<open>
  Lines 191 to 195, and again lines 251 to 255: a new queue, a new task for the node,
  and the task added to the queue.
\<close>

definition seed_queue ::
  "CMR \<Rightarrow> dec_ptr \<Rightarrow> CMR_REGULAR_PARAMS \<Rightarrow> stats_ptr option \<Rightarrow> clock_t \<Rightarrow> int \<Rightarrow> state
    \<Rightarrow> failure + (queue_ptr \<times> state)" where
  "seed_queue cmr d ps st time tlimit s =
     (case CMRregularityQueueCreate cmr s of
        Inl e \<Rightarrow> Inl e
      | Inr (queue, s1) \<Rightarrow>
          (case CMRregularityTaskCreateRoot cmr d ps st time tlimit s1 of
             Inl e \<Rightarrow> Inl e
           | Inr (task, s2) \<Rightarrow>
               (case CMRregularityQueueAdd queue task s2 of
                  Inl e \<Rightarrow> Inl e
                | Inr s3 \<Rightarrow> Inr (queue, s3))))"

text \<open>
  Lines 203 to 206, and again lines 263 to 266: the queue is freed, the attribute
  finaliser runs on the root, and the root's regularity is asserted to be set.
\<close>

definition finalise :: "CMR \<Rightarrow> dec_ptr \<Rightarrow> queue_ptr \<Rightarrow> state \<Rightarrow> (failure + state) option" where
  "finalise cmr root queue s =
     (case CMRregularityQueueFree (Some queue) s of
        None \<Rightarrow> None
      | Some (Inl e) \<Rightarrow> Some (Inl e)
      | Some (Inr s1) \<Rightarrow>
          Some (case CMRmatroiddecSetAttributes cmr root s1 of
                  Inl e \<Rightarrow> Inl e
                | Inr s2 \<Rightarrow>
                    (case decs s2 root of
                       None \<Rightarrow> Inl InvalidPointer
                     | Some d \<Rightarrow> if regularity d \<noteq> 0 then Inr s2 else Inl AssertFailed)))"

text \<open>
  \<^verbatim>\<open>CMRregularityTest\<close>. The pointers \<^verbatim>\<open>cmr\<close>, \<^verbatim>\<open>matrix\<close> and \<^verbatim>\<open>params\<close> are asserted
  not to be \<^verbatim>\<open>NULL\<close>: they are values here. Of the output pointers \<^verbatim>\<open>pisRegular\<close>,
  \<^verbatim>\<open>pdec\<close> and \<^verbatim>\<open>pminor\<close> the function only needs to know whether they are \<^verbatim>\<open>NULL\<close>;
  what it stores through them is returned in a record (\<open>None\<close>: nothing stored). The
  function never stores through \<^verbatim>\<open>pminor\<close>.

  \<open>Test_init\<close> is lines 177 to 195, \<open>Test_output\<close> lines 207 to 219.
\<close>

record test_output =
  isRegular :: "bool option"
  pdec_out :: "dec_ptr option"

definition Test_init ::
  "CMR \<Rightarrow> CMR_CHRMAT \<Rightarrow> bool \<Rightarrow> CMR_REGULAR_PARAMS \<Rightarrow> stats_ptr option \<Rightarrow> int \<Rightarrow> state
    \<Rightarrow> failure + (dec_ptr \<times> queue_ptr \<times> clock_t \<times> state)" where
  "Test_init cmr m ternary ps st tlimit s =
     (case CMRchrmatPrintDense cmr m of
        Some e \<Rightarrow> Inl (Error e)
      | None \<Rightarrow>
          (case stats_count st s of
             Inl e \<Rightarrow> Inl e
           | Inr s1 \<Rightarrow>
               (case CMRmatroiddecCreateMatrixRoot cmr ternary m s1 of
                  Inl e \<Rightarrow> Inl e
                | Inr (proot, s2) \<Rightarrow>
                    (case proot of
                       None \<Rightarrow> Inl AssertFailed
                     | Some root \<Rightarrow>
                         (case seed_queue cmr root ps st (clock cmr s) tlimit s2 of
                            Inl e \<Rightarrow> Inl e
                          | Inr (queue, s3) \<Rightarrow> Inr (root, queue, clock cmr s, s3))))))"

definition Test_output ::
  "CMR \<Rightarrow> dec_ptr \<Rightarrow> bool \<Rightarrow> bool \<Rightarrow> stats_ptr option \<Rightarrow> clock_t \<Rightarrow> state
    \<Rightarrow> failure + (test_output \<times> state)" where
  "Test_output cmr root pisRegular pdec st time s =
     (case (if pisRegular then
              (case decs s root of
                 None \<Rightarrow> Inl InvalidPointer
               | Some d \<Rightarrow> Inr (Some (0 < regularity d)))
            else Inr None) of
        Inl e \<Rightarrow> Inl e
      | Inr reg \<Rightarrow>
          (case (if pdec then Inr s else CMRmatroiddecFree cmr (LocalPointer root) s) of
             Inl e \<Rightarrow> Inl e
           | Inr s1 \<Rightarrow>
               (case stats_time cmr st time s1 of
                  Inl e \<Rightarrow> Inl e
                | Inr s2 \<Rightarrow>
                    Inr (\<lparr>isRegular = reg, pdec_out = (if pdec then Some root else None)\<rparr>, s2))))"

definition CMRregularityTest ::
  "CMR \<Rightarrow> CMR_CHRMAT \<Rightarrow> bool \<Rightarrow> bool \<Rightarrow> bool \<Rightarrow> bool \<Rightarrow> CMR_REGULAR_PARAMS \<Rightarrow> stats_ptr option \<Rightarrow> int
    \<Rightarrow> state \<Rightarrow> (failure + (test_output \<times> state)) option" where
  "CMRregularityTest cmr m ternary pisRegular pdec pminor ps st tlimit s =
     (case Test_init cmr m ternary ps st tlimit s of
        Inl e \<Rightarrow> Some (Inl e)
      | Inr (root, queue, time, s1) \<Rightarrow>
          (case regularity_loop cmr ps queue s1 of
             None \<Rightarrow> None
           | Some (Inl e) \<Rightarrow> Some (Inl e)
           | Some (Inr s2) \<Rightarrow>
               (case finalise cmr root queue s2 of
                  None \<Rightarrow> None
                | Some (Inl e) \<Rightarrow> Some (Inl e)
                | Some (Inr s3) \<Rightarrow> Some (Test_output cmr root pisRegular pdec st time s3))))"

text \<open>
  \<^verbatim>\<open>CMRregularityCompleteDecomposition\<close>. Lines 230 to 232 follow the parent links
  from the given node to the root of its tree; links that never reach a node without
  a parent keep the loop running.
\<close>

partial_function (option) find_root :: "state \<Rightarrow> dec_ptr \<Rightarrow> (failure + dec_ptr) option" where
  "find_root s root =
     (case decs s root of
        None \<Rightarrow> Some (Inl InvalidPointer)
      | Some d \<Rightarrow>
          (case parent d of
             None \<Rightarrow> Some (Inr root)
           | Some p \<Rightarrow> find_root s p))"

text \<open>
  Lines 246 and 247: \<^verbatim>\<open>for (size_t c = 0; c < dec->numChildren; ++c)\<close> frees the \<open>c\<close>-th
  child. The bound and the child pointer are read from the memory in every round.
\<close>

partial_function (option) free_children ::
  "CMR \<Rightarrow> dec_ptr \<Rightarrow> nat \<Rightarrow> state \<Rightarrow> (failure + state) option" where
  "free_children cmr decp c s =
     (case decs s decp of
        None \<Rightarrow> Some (Inl InvalidPointer)
      | Some d \<Rightarrow>
          if c < length (children d) then
            (case CMRmatroiddecFree cmr (ChildPointer decp c) s of
               Inl e \<Rightarrow> Some (Inl e)
             | Inr s' \<Rightarrow> free_children cmr decp (c + 1) s')
          else Some (Inr s))"

text \<open>
  \<open>Complete_init\<close> is lines 229 to 255: the root, the debugging output, the
  statistics, the children, the type, the queue.
\<close>

definition Complete_init ::
  "CMR \<Rightarrow> dec_ptr \<Rightarrow> CMR_REGULAR_PARAMS \<Rightarrow> stats_ptr option \<Rightarrow> int \<Rightarrow> state
    \<Rightarrow> (failure + (dec_ptr \<times> queue_ptr \<times> clock_t \<times> state)) option" where
  "Complete_init cmr decp ps st tlimit s =
     (case find_root s decp of
        None \<Rightarrow> None
      | Some (Inl e) \<Rightarrow> Some (Inl e)
      | Some (Inr root) \<Rightarrow>
          (case decs s decp of
             None \<Rightarrow> Some (Inl InvalidPointer)
           | Some d \<Rightarrow>
               (case CMRchrmatPrintDense cmr (matrix d) of
                  Some e \<Rightarrow> Some (Inl (Error e))
                | None \<Rightarrow>
                    (case stats_count st s of
                       Inl e \<Rightarrow> Some (Inl e)
                     | Inr s1 \<Rightarrow>
                         (case free_children cmr decp 0 s1 of
                            None \<Rightarrow> None
                          | Some (Inl e) \<Rightarrow> Some (Inl e)
                          | Some (Inr s2) \<Rightarrow>
                              (case decs s2 decp of
                                 None \<Rightarrow> Some (Inl InvalidPointer)
                               | Some d2 \<Rightarrow>
                                   (case seed_queue cmr decp ps st (clock cmr s) tlimit
                                           (s2\<lparr>decs := (decs s2)(decp \<mapsto> d2\<lparr>dec_type := TYPE_UNKNOWN\<rparr>)\<rparr>) of
                                      Inl e \<Rightarrow> Some (Inl e)
                                    | Inr (queue, s3) \<Rightarrow> Some (Inr (root, queue, clock cmr s, s3)))))))))"

definition CMRregularityCompleteDecomposition ::
  "CMR \<Rightarrow> dec_ptr \<Rightarrow> CMR_REGULAR_PARAMS \<Rightarrow> stats_ptr option \<Rightarrow> int \<Rightarrow> state
    \<Rightarrow> (failure + state) option" where
  "CMRregularityCompleteDecomposition cmr decp ps st tlimit s =
     (case Complete_init cmr decp ps st tlimit s of
        None \<Rightarrow> None
      | Some (Inl e) \<Rightarrow> Some (Inl e)
      | Some (Inr (root, queue, time, s1)) \<Rightarrow>
          (case regularity_loop cmr ps queue s1 of
             None \<Rightarrow> None
           | Some (Inl e) \<Rightarrow> Some (Inl e)
           | Some (Inr s2) \<Rightarrow>
               (case finalise cmr root queue s2 of
                  None \<Rightarrow> None
                | Some (Inl e) \<Rightarrow> Some (Inl e)
                | Some (Inr s3) \<Rightarrow> Some (stats_time cmr st time s3))))"

subsection \<open>Notions used to state the properties of the driver\<close>

text \<open>
  \<open>parent_link s a b\<close>: node \<open>a\<close> exists and its parent pointer is \<open>b\<close>.
  \<open>frees cmr decp c s c' s'\<close>: starting in memory \<open>s\<close>, the children of \<open>decp\<close> with the
  indices \<open>c\<close>, \<open>c + 1\<close>, ..., \<open>c' - 1\<close> were handed to \<^verbatim>\<open>CMRmatroiddecFree\<close> one after the
  other, each index being below the number of children at its turn, and the memory is
  then \<open>s'\<close>.
\<close>

definition parent_link :: "state \<Rightarrow> dec_ptr \<Rightarrow> dec_ptr \<Rightarrow> bool" where
  "parent_link s a b = (case decs s a of None \<Rightarrow> False | Some d \<Rightarrow> parent d = Some b)"

inductive frees :: "CMR \<Rightarrow> dec_ptr \<Rightarrow> nat \<Rightarrow> state \<Rightarrow> nat \<Rightarrow> state \<Rightarrow> bool" where
  frees_done: "frees cmr decp c s c s"
| frees_step: "decs s decp = Some d \<Longrightarrow> c < length (children d) \<Longrightarrow>
     CMRmatroiddecFree cmr (ChildPointer decp c) s = Inr s1 \<Longrightarrow>
     frees cmr decp (Suc c) s1 c' s' \<Longrightarrow> frees cmr decp c s c' s'"

subsection \<open>A concrete environment\<close>

text \<open>
  One implementation of the collaborators, small enough to run the driver on by hand.
  It is used for the examples only. The one-sum stage sets the node's flag and puts
  the task back; the graphicness stage declares the node irregular, raises the queue's
  flag and puts the task back; every other stage runs out of time. Blocks are allocated
  at address 0; the finaliser reads the types of the root and of its children; freeing
  removes the node.
\<close>

definition demo_dec :: CMR_MATROID_DEC where
  "demo_dec =
     \<lparr>dec_type = TYPE_UNKNOWN, isTernary = False, regularity = 0, graphicness = 0,
      cographicness = 0, matrix = \<lparr>numRows = 3, numColumns = 3\<rparr>, parent = None,
      children = [], testedTwoConnected = False, testedR10 = False,
      testedSeriesParallel = False, denseMatrix = None, nestedMinorsMatrix = None,
      nestedMinorsLastGraphic = SIZE_MAX, nestedMinorsLastCographic = SIZE_MAX\<rparr>"

definition demo_stage :: "stage \<Rightarrow> task_ptr \<Rightarrow> queue_ptr \<Rightarrow> state \<Rightarrow> failure + state" where
  "demo_stage st task queue s =
     (case tasks s task of
        None \<Rightarrow> Inl InvalidPointer
      | Some t \<Rightarrow>
          (case decs s (dec t) of
             None \<Rightarrow> Inl InvalidPointer
           | Some d \<Rightarrow>
               (case queues s queue of
                  None \<Rightarrow> Inl InvalidPointer
                | Some q \<Rightarrow>
                    if st = SearchOneSum then
                      CMRregularityQueueAdd queue task
                        (s\<lparr>decs := (decs s)(dec t \<mapsto> d\<lparr>testedTwoConnected := True\<rparr>)\<rparr>)
                    else if st = TestGraphicness then
                      CMRregularityQueueAdd queue task
                        (s\<lparr>decs := (decs s)(dec t \<mapsto> d\<lparr>dec_type := TYPE_IRREGULAR, graphicness := - 1\<rparr>),
                           queues := (queues s)(queue \<mapsto> q\<lparr>foundIrregularity := True\<rparr>)\<rparr>)
                    else Inl (Error TIME_LIMIT))))"

definition demo_attributes :: "dec_ptr \<Rightarrow> state \<Rightarrow> failure + state" where
  "demo_attributes root s =
     (case decs s root of
        None \<Rightarrow> Inl InvalidPointer
      | Some d \<Rightarrow>
          Inr (s\<lparr>decs := (decs s)(root \<mapsto>
                 d\<lparr>regularity :=
                     (if dec_type d = TYPE_IRREGULAR
                         \<or> list_ex (\<lambda>c. case c of
                                None \<Rightarrow> False
                              | Some p \<Rightarrow> (case decs s p of
                                            None \<Rightarrow> False
                                          | Some dc \<Rightarrow> dec_type dc = TYPE_IRREGULAR)) (children d)
                      then - 1 else 1)\<rparr>)\<rparr>))"

definition demo_free :: "dec_ref \<Rightarrow> state \<Rightarrow> failure + state" where
  "demo_free r s =
     (case r of
        LocalPointer p \<Rightarrow> Inr (s\<lparr>decs := (decs s)(p := None)\<rparr>)
      | ChildPointer p c \<Rightarrow>
          (case decs s p of
             None \<Rightarrow> Inl InvalidPointer
           | Some d \<Rightarrow>
               (case children d ! c of
                  None \<Rightarrow> Inr s
                | Some ch \<Rightarrow>
                    Inr (s\<lparr>decs := (decs s)(ch := None, p \<mapsto> d\<lparr>children := (children d)[c := None]\<rparr>)\<rparr>))))"

definition demo_cmr :: CMR where
  "demo_cmr =
     \<lparr>run_stage = demo_stage,
      allocTask = (\<lambda>s. Inr 0),
      allocQueue = (\<lambda>s. Inr 0),
      CMRmatroiddecCreateMatrixRoot =
        (\<lambda>ternary m s. Inr (Some 0, s\<lparr>decs := (decs s)(0 \<mapsto> demo_dec\<lparr>isTernary := ternary, matrix := m\<rparr>)\<rparr>)),
      CMRmatroiddecSetAttributes = demo_attributes,
      CMRmatroiddecFree = demo_free,
      CMRchrmatPrintDense = (\<lambda>m. None),
      clock = (\<lambda>s. 0)\<rparr>"

definition demo_params :: CMR_REGULAR_PARAMS where
  "demo_params = \<lparr>directGraphicness = False, seriesParallel = True, completeTree = False\<rparr>"

definition empty_state :: state where
  "empty_state = \<lparr>decs = Map.empty, tasks = Map.empty, queues = Map.empty, statistics = Map.empty\<rparr>"

text \<open>A tree of three nodes in a line: 0 is the root, 1 its child, 2 the child of 1.\<close>

definition demo_tree :: state where
  "demo_tree =
     \<lparr>decs = [0 \<mapsto> demo_dec\<lparr>dec_type := TYPE_ONE_SUM, children := [Some 1]\<rparr>,
              1 \<mapsto> demo_dec\<lparr>dec_type := TYPE_ONE_SUM, parent := Some 0, children := [Some 2]\<rparr>,
              2 \<mapsto> demo_dec\<lparr>dec_type := TYPE_GRAPHIC, parent := Some 1\<rparr>],
      tasks = Map.empty, queues = Map.empty, statistics = Map.empty\<rparr>"

text \<open>A queue at address 0 that holds the task at address 7, and a free task at 8.\<close>

definition demo_queue :: state where
  "demo_queue =
     \<lparr>decs = [0 \<mapsto> demo_dec\<lparr>testedTwoConnected := True, graphicness := 1, cographicness := - 1\<rparr>],
      tasks = [7 \<mapsto> \<lparr>dec = 0, task_next = None, params = demo_params, stats = None,
                       startClock = 0, timeLimit = 0\<rparr>,
               8 \<mapsto> \<lparr>dec = 0, task_next = None, params = demo_params, stats = None,
                       startClock = 0, timeLimit = 0\<rparr>],
      queues = [0 \<mapsto> \<lparr>head = Some 7, foundIrregularity = False\<rparr>],
      statistics = Map.empty\<rparr>"

text \<open>The memory after the driver has run on \<open>empty_state\<close> and on node 1 of \<open>demo_tree\<close>.\<close>

definition demo_tested :: state where
  "demo_tested =
     \<lparr>decs = [0 \<mapsto> demo_dec\<lparr>dec_type := TYPE_IRREGULAR, regularity := - 1, graphicness := - 1,
                              testedTwoConnected := True\<rparr>],
      tasks = Map.empty, queues = Map.empty, statistics = Map.empty\<rparr>"

definition demo_completed :: state where
  "demo_completed =
     \<lparr>decs = [1 \<mapsto> demo_dec\<lparr>dec_type := TYPE_IRREGULAR, graphicness := - 1, parent := Some 0,
                              children := [None], testedTwoConnected := True\<rparr>,
              0 \<mapsto> demo_dec\<lparr>dec_type := TYPE_ONE_SUM, regularity := - 1, children := [Some 1]\<rparr>],
      tasks = Map.empty, queues = Map.empty, statistics = Map.empty\<rparr>"

section \<open>The wheel-minor search of \<^verbatim>\<open>src/find_wheel_minor.hpp\<close>\<close>

subsection \<open>Collaborating types that are not part of the sources\<close>

text \<open>
  \<^verbatim>\<open>find_wheel_minor\<close> works on a permuted matroid and a permuted matrix and uses a
  breadth-first search, the reordering and counting functions, the pivot and the
  separation type of other headers of the repository, none of which is among the sources
  at hand. What follows fixes their meaning as far as \<^verbatim>\<open>find_wheel_minor\<close> depends on it,
  from the way the function uses them and from the words of the specification.

  Modelled from the spec: \<^verbatim>\<open>bipartite_graph_dimensions\<close> and \<^verbatim>\<open>bipartite_graph_bfs_node\<close>. The
  bipartite row/column graph of a matrix with \<open>height\<close> rows and \<open>width\<close> columns has the rows
  as its nodes \<open>0, \<dots>, height - 1\<close> and the columns as its nodes \<open>height, \<dots>, height + width - 1\<close>.
  A node of the search result carries its distance from the start nodes and its
  predecessor; a negative distance means that the node was not reached, and \<open>-2\<close> marks
  an end node that was not reached.
\<close>

record bipartite_graph_bfs_node =
  distance :: int
  predecessor :: nat

definition is_reachable :: "bipartite_graph_bfs_node \<Rightarrow> bool" where
  "is_reachable node = (0 \<le> distance node)"

record bipartite_graph_dimensions =
  height :: nat
  width :: nat

definition is_row :: "bipartite_graph_dimensions \<Rightarrow> nat \<Rightarrow> bool" where
  "is_row dim index = (index < height dim)"

definition is_column :: "bipartite_graph_dimensions \<Rightarrow> nat \<Rightarrow> bool" where
  "is_column dim index = (height dim \<le> index)"

definition row_to_index :: "bipartite_graph_dimensions \<Rightarrow> nat \<Rightarrow> nat" where
  "row_to_index dim row = row"

definition column_to_index :: "bipartite_graph_dimensions \<Rightarrow> nat \<Rightarrow> nat" where
  "column_to_index dim column = height dim + column"

definition index_to_row :: "bipartite_graph_dimensions \<Rightarrow> nat \<Rightarrow> nat" where
  "index_to_row dim index = index"

definition index_to_column :: "bipartite_graph_dimensions \<Rightarrow> nat \<Rightarrow> nat" where
  "index_to_column dim index = index - height dim"

definition indexes_to_coordinates :: "bipartite_graph_dimensions \<Rightarrow> nat \<Rightarrow> nat \<Rightarrow> nat \<times> nat" where
  "indexes_to_coordinates dim first second =
     (if is_row dim first then (index_to_row dim first, index_to_column dim second)
      else (index_to_row dim second, index_to_column dim first))"

text \<open>
  Modelled from the spec: \<^verbatim>\<open>separation\<close>. A separation is the pair of the numbers of rows
  and of columns of its first part, with up to two witnesses (positions of the matrix);
  \<^verbatim>\<open>separation ()\<close>, which \<^verbatim>\<open>find_wheel_minor\<close> returns when it has found the wheel, is
  the empty separation with the split \<open>(0, 0)\<close>.
\<close>

record separation =
  sep_split :: "nat \<times> nat"
  sep_witnesses :: "(nat \<times> nat) list"

definition separation_empty :: separation where
  "separation_empty = \<lparr>sep_split = (0, 0), sep_witnesses = []\<rparr>"

definition separation1 :: "nat \<times> nat \<Rightarrow> separation" where
  "separation1 sp = \<lparr>sep_split = sp, sep_witnesses = []\<rparr>"

definition separation2 :: "nat \<times> nat \<Rightarrow> nat \<times> nat \<Rightarrow> separation" where
  "separation2 sp witness1 = \<lparr>sep_split = sp, sep_witnesses = [witness1]\<rparr>"

text \<open>
  Modelled from the spec: \<^verbatim>\<open>matrix_permuted\<close> and \<^verbatim>\<open>matroid_permuted\<close>. A permuted matrix is
  a matrix with a row permutation \<open>perm1\<close> and a column permutation \<open>perm2\<close>; its entry
  \<open>(i, j)\<close> is the entry \<open>(perm1 i, perm2 j)\<close> of the matrix underneath. A permuted matroid
  is the same for the names of the row elements and column elements. Moving rows and
  columns only changes the permutations; a pivot changes the entries and the names
  underneath. Sizes and indices are numbers of type \<^verbatim>\<open>size_t\<close>; they are natural numbers
  here, all of them bounded by the numbers of rows and columns.
\<close>

record matrix_permuted =
  m_data :: "nat \<Rightarrow> nat \<Rightarrow> int"
  m_size1 :: nat
  m_size2 :: nat
  m_perm1 :: "nat list"
  m_perm2 :: "nat list"

record matroid_permuted =
  o_name1 :: "nat \<Rightarrow> int"
  o_name2 :: "nat \<Rightarrow> int"
  o_size1 :: nat
  o_size2 :: nat
  o_perm1 :: "nat list"
  o_perm2 :: "nat list"

text \<open>The three arguments of \<^verbatim>\<open>find_wheel_minor\<close>, all passed by reference.\<close>

record wheel_state =
  permuted_matroid :: matroid_permuted
  permuted_matrix :: matrix_permuted
  extra_elements :: "int set"

text \<open>\<^verbatim>\<open>permuted_matrix (i, j)\<close>, \<^verbatim>\<open>permuted_matroid.name1 (i)\<close> and \<^verbatim>\<open>name2 (j)\<close>.\<close>

definition entry :: "wheel_state \<Rightarrow> nat \<Rightarrow> nat \<Rightarrow> int" where
  "entry st i j =
     m_data (permuted_matrix st) (m_perm1 (permuted_matrix st) ! i) (m_perm2 (permuted_matrix st) ! j)"

definition name1 :: "wheel_state \<Rightarrow> nat \<Rightarrow> int" where
  "name1 st i = o_name1 (permuted_matroid st) (o_perm1 (permuted_matroid st) ! i)"

definition name2 :: "wheel_state \<Rightarrow> nat \<Rightarrow> int" where
  "name2 st j = o_name2 (permuted_matroid st) (o_perm2 (permuted_matroid st) ! j)"

text \<open>
  A well-formed argument: the permutations of the matrix are permutations of its row
  and column indices, and the matroid has the sizes and the permutations of the matrix.
\<close>

definition well_formed :: "wheel_state \<Rightarrow> bool" where
  "well_formed st =
     (mset (m_perm1 (permuted_matrix st)) = mset [0..<m_size1 (permuted_matrix st)]
    \<and> mset (m_perm2 (permuted_matrix st)) = mset [0..<m_size2 (permuted_matrix st)]
    \<and> o_size1 (permuted_matroid st) = m_size1 (permuted_matrix st)
    \<and> o_size2 (permuted_matroid st) = m_size2 (permuted_matrix st)
    \<and> o_perm1 (permuted_matroid st) = m_perm1 (permuted_matrix st)
    \<and> o_perm2 (permuted_matroid st) = m_perm2 (permuted_matrix st))"

text \<open>
  Modelled from the spec: \<^verbatim>\<open>matroid_permute1\<close> and \<^verbatim>\<open>matroid_permute2\<close> exchange two rows
  (two columns) of the permuted matroid and of the permuted matrix.
\<close>

definition swap_entries :: "nat \<Rightarrow> nat \<Rightarrow> 'a list \<Rightarrow> 'a list" where
  "swap_entries i j xs = xs[i := xs ! j, j := xs ! i]"

definition matroid_permute1 :: "wheel_state \<Rightarrow> nat \<Rightarrow> nat \<Rightarrow> wheel_state" where
  "matroid_permute1 st i j =
     st\<lparr>permuted_matroid := (permuted_matroid st)\<lparr>o_perm1 := swap_entries i j (o_perm1 (permuted_matroid st))\<rparr>,
        permuted_matrix := (permuted_matrix st)\<lparr>m_perm1 := swap_entries i j (m_perm1 (permuted_matrix st))\<rparr>\<rparr>"

definition matroid_permute2 :: "wheel_state \<Rightarrow> nat \<Rightarrow> nat \<Rightarrow> wheel_state" where
  "matroid_permute2 st i j =
     st\<lparr>permuted_matroid := (permuted_matroid st)\<lparr>o_perm2 := swap_entries i j (o_perm2 (permuted_matroid st))\<rparr>,
        permuted_matrix := (permuted_matrix st)\<lparr>m_perm2 := swap_entries i j (m_perm2 (permuted_matrix st))\<rparr>\<rparr>"

text \<open>
  Modelled from the spec: \<^verbatim>\<open>matroid_binary_pivot\<close>, the pivot over the field of two
  elements on the entry \<open>(i, j)\<close> of the permuted matrix: every entry \<open>(x, y)\<close> outside the
  pivot row and the pivot column whose entries in the pivot column and in the pivot row
  are both not zero is replaced by one minus itself; the names of the pivot row and of
  the pivot column are exchanged.
\<close>

definition binary_pivot_data ::
  "(nat \<Rightarrow> nat \<Rightarrow> int) \<Rightarrow> nat \<Rightarrow> nat \<Rightarrow> nat \<Rightarrow> nat \<Rightarrow> nat \<Rightarrow> nat \<Rightarrow> int" where
  "binary_pivot_data d n1 n2 a b =
     (\<lambda>x y. if x < n1 \<and> y < n2 \<and> x \<noteq> a \<and> y \<noteq> b \<and> d x b \<noteq> 0 \<and> d a y \<noteq> 0
             then 1 - d x y else d x y)"

definition matroid_binary_pivot :: "wheel_state \<Rightarrow> nat \<Rightarrow> nat \<Rightarrow> wheel_state" where
  "matroid_binary_pivot st i j =
     (let mx = permuted_matrix st; mo = permuted_matroid st;
          a = o_perm1 mo ! i; b = o_perm2 mo ! j
      in st\<lparr>permuted_matrix :=
              mx\<lparr>m_data := binary_pivot_data (m_data mx) (m_size1 mx) (m_size2 mx)
                              (m_perm1 mx ! i) (m_perm2 mx ! j)\<rparr>,
            permuted_matroid :=
              mo\<lparr>o_name1 := (o_name1 mo)(a := o_name2 mo b),
                 o_name2 := (o_name2 mo)(b := o_name1 mo a)\<rparr>\<rparr>)"

text \<open>
  Modelled from the spec: \<^verbatim>\<open>matroid_reorder_columns\<close> sorts the columns
  \<open>column_first, \<dots>, column_beyond - 1\<close> of the permuted matroid and matrix by their entries
  in the rows \<open>row_first, \<dots>, row_beyond - 1\<close>, compared lexicographically from the first of
  these rows on with \<^verbatim>\<open>std::greater\<close>, so that larger entries come first;
  \<^verbatim>\<open>matroid_reorder_rows\<close> does the same for rows. The sorting function of the C++ library
  leaves the order of equal columns open; the model keeps it (a stable sort). A
  descending order of the entries is the ascending order of their negations.
\<close>

definition reorder :: "(nat \<Rightarrow> int list) \<Rightarrow> nat \<Rightarrow> nat \<Rightarrow> nat \<Rightarrow> nat list" where
  "reorder key first beyond n =
     [0..<min first n] @ sort_key key [min first n..<min beyond n] @ [max (min first n) (min beyond n)..<n]"

definition matroid_reorder_columns ::
  "wheel_state \<Rightarrow> nat \<Rightarrow> nat \<Rightarrow> nat \<Rightarrow> nat \<Rightarrow> wheel_state" where
  "matroid_reorder_columns st row_first row_beyond column_first column_beyond =
     (let mx = permuted_matrix st; mo = permuted_matroid st;
          order = reorder (\<lambda>c. map (\<lambda>r. - entry st r c) [row_first..<row_beyond])
                    column_first column_beyond (length (m_perm2 mx))
      in st\<lparr>permuted_matroid := mo\<lparr>o_perm2 := map (\<lambda>k. o_perm2 mo ! k) order\<rparr>,
            permuted_matrix := mx\<lparr>m_perm2 := map (\<lambda>k. m_perm2 mx ! k) order\<rparr>\<rparr>)"

definition matroid_reorder_rows ::
  "wheel_state \<Rightarrow> nat \<Rightarrow> nat \<Rightarrow> nat \<Rightarrow> nat \<Rightarrow> wheel_state" where
  "matroid_reorder_rows st row_first row_beyond column_first column_beyond =
     (let mx = permuted_matrix st; mo = permuted_matroid st;
          order = reorder (\<lambda>r. map (\<lambda>c. - entry st r c) [column_first..<column_beyond])
                    row_first row_beyond (length (m_perm1 mx))
      in st\<lparr>permuted_matroid := mo\<lparr>o_perm1 := map (\<lambda>k. o_perm1 mo ! k) order\<rparr>,
            permuted_matrix := mx\<lparr>m_perm1 := map (\<lambda>k. m_perm1 mx ! k) order\<rparr>\<rparr>)"

text \<open>
  Modelled from the spec: \<^verbatim>\<open>matrix_count_property_column_series\<close> counts how many columns,
  from \<open>column_first\<close> on and before \<open>column_beyond\<close>, have the property on the rows
  \<open>row_first, \<dots>, row_beyond - 1\<close>, up to the first column that does not have it;
  \<^verbatim>\<open>matrix_count_property_row_series\<close> likewise for rows. \<^verbatim>\<open>is_non_zero\<close> holds of entries
  one of which is not zero, \<^verbatim>\<open>is_all_ones\<close> of entries that are all one.
\<close>

definition is_non_zero :: "int list \<Rightarrow> bool" where
  "is_non_zero vs = list_ex (\<lambda>v. v \<noteq> 0) vs"

definition is_all_ones :: "int list \<Rightarrow> bool" where
  "is_all_ones vs = list_all (\<lambda>v. v = 1) vs"

definition matrix_count_property_column_series ::
  "wheel_state \<Rightarrow> nat \<Rightarrow> nat \<Rightarrow> nat \<Rightarrow> nat \<Rightarrow> (int list \<Rightarrow> bool) \<Rightarrow> nat" where
  "matrix_count_property_column_series st row_first row_beyond column_first column_beyond check =
     length (takeWhile (\<lambda>c. check (map (\<lambda>r. entry st r c) [row_first..<row_beyond]))
               [column_first..<column_beyond])"

definition matrix_count_property_row_series ::
  "wheel_state \<Rightarrow> nat \<Rightarrow> nat \<Rightarrow> nat \<Rightarrow> nat \<Rightarrow> (int list \<Rightarrow> bool) \<Rightarrow> nat" where
  "matrix_count_property_row_series st row_first row_beyond column_first column_beyond check =
     length (takeWhile (\<lambda>r. check (map (\<lambda>c. entry st r c) [column_first..<column_beyond]))
               [row_first..<row_beyond])"

subsection \<open>The function\<close>

text \<open>
  \<^verbatim>\<open>zero_block_matrix_modifier\<close> (lines 24 to 45) and the modified matrix it gives: the
  entries of the first \<open>height\<close> rows in the first \<open>width\<close> columns read as zero.
\<close>

definition zero_block_matrix_modifier :: "nat \<Rightarrow> nat \<Rightarrow> nat \<Rightarrow> nat \<Rightarrow> int \<Rightarrow> int" where
  "zero_block_matrix_modifier block_h block_w i j v = (if i < block_h \<and> j < block_w then 0 else v)"

definition modified_matrix :: "wheel_state \<Rightarrow> nat \<Rightarrow> nat \<Rightarrow> nat \<Rightarrow> nat \<Rightarrow> int" where
  "modified_matrix st block_h block_w i j = zero_block_matrix_modifier block_h block_w i j (entry st i j)"

text \<open>
  The breadth-first search \<^verbatim>\<open>bipartite_graph_bfs\<close> is a parameter: it receives the matrix,
  the dimensions, the start nodes, the end nodes and the flag \<^verbatim>\<open>reach_all\<close>, and returns
  whether it found a path together with the vector of nodes it filled.
\<close>

type_synonym bfs_function =
  "(nat \<Rightarrow> nat \<Rightarrow> int) \<Rightarrow> bipartite_graph_dimensions \<Rightarrow> nat list \<Rightarrow> nat list \<Rightarrow> bool
     \<Rightarrow> bool \<times> bipartite_graph_bfs_node list"

text \<open>
  A pivot together with the two insertions into \<^verbatim>\<open>extra_elements\<close> that follow it (lines
  92 to 94 and lines 228 to 230).
\<close>

definition pivot_and_record :: "wheel_state \<Rightarrow> nat \<times> nat \<Rightarrow> wheel_state" where
  "pivot_and_record st coords =
     (let p = matroid_binary_pivot st (fst coords) (snd coords)
      in p\<lparr>extra_elements := insert (name2 p (snd coords)) (insert (name1 p (fst coords)) (extra_elements p))\<rparr>)"

text \<open>
  Lines 51 to 115: the assertion on the sizes, the separations that are found at once,
  the block of ones of size two by two and its growth. The result is either a
  separation or the block: the arguments as they are then, the block's height and its
  width.
\<close>

datatype block_result = Separated separation wheel_state | Block wheel_state nat nat

definition grow_block :: "wheel_state \<Rightarrow> failure + block_result" where
  "grow_block st =
     (if \<not> (3 \<le> m_size1 (permuted_matrix st) \<and> 3 \<le> o_size2 (permuted_matroid st)) then Inl AssertFailed
      else
        let st1 = matroid_reorder_columns st 0 1 0 (o_size2 (permuted_matroid st));
            count_first_row_ones =
              matrix_count_property_column_series st1 0 1 0 (m_size2 (permuted_matrix st1)) is_non_zero
        in if count_first_row_ones = 0 then Inr (Separated (separation1 (1, 0)) st1)
           else
             let st2 = matroid_reorder_rows st1 1 (o_size1 (permuted_matroid st1)) 0 1;
                 count_first_column_ones =
                   matrix_count_property_row_series st2 0 (o_size1 (permuted_matroid st2)) 0 1 is_non_zero
             in if count_first_row_ones = 1 then
                  (if count_first_column_ones = 0 then Inr (Separated (separation1 (1, 1)) st2)
                   else Inr (Separated (separation2 (1, 1) (1, 0)) st2))
                else if count_first_column_ones = 1 then
                  Inr (Separated (separation2 (1, 1) (0, 1)) st2)
                else if \<not> (entry st2 0 0 = 1 \<and> entry st2 1 0 = 1 \<and> entry st2 0 1 = 1) then
                  Inl AssertFailed
                else
                  let st3 = (if entry st2 1 1 \<noteq> 1 then pivot_and_record st2 (0, 0) else st2)
                  in if \<not> (entry st3 0 0 = 1 \<and> entry st3 1 0 = 1 \<and> entry st3 0 1 = 1 \<and> entry st3 1 1 = 1)
                     then Inl AssertFailed
                     else
                       let st4 = matroid_reorder_columns st3 0 2 2 (o_size2 (permuted_matroid st3));
                           block_width =
                             2 + matrix_count_property_column_series st4 0 2 2
                                   (m_size2 (permuted_matrix st4)) is_all_ones;
                           st5 = matroid_reorder_rows st4 2 (o_size1 (permuted_matroid st4)) 0 block_width;
                           block_height =
                             2 + matrix_count_property_row_series st5 2
                                   (m_size1 (permuted_matrix st5)) 0 block_width is_all_ones
                       in Inr (Block st5 block_height block_width))"

text \<open>
  Lines 151 to 187, the case that no path was found. \<open>row_value\<close> and \<open>column_value\<close> are
  the values that the two loops compute for a row and a column; the vector \<^verbatim>\<open>reachable\<close>
  holds them under the indices of the matrix underneath, and the permutations are
  sorted by it. \<^verbatim>\<open>split.second - 1\<close> is a subtraction of numbers of type \<^verbatim>\<open>size_t\<close>.
\<close>

definition row_value :: "bipartite_graph_dimensions \<Rightarrow> bipartite_graph_bfs_node list \<Rightarrow> nat \<Rightarrow> int" where
  "row_value dim res i =
     (let node = res ! row_to_index dim i
      in if is_reachable node then (if 0 < distance node then 2 else 1) else 0)"

definition column_value :: "bipartite_graph_dimensions \<Rightarrow> bipartite_graph_bfs_node list \<Rightarrow> nat \<Rightarrow> int" where
  "column_value dim res i =
     (let node = res ! column_to_index dim i
      in if is_reachable node then 2 else (if distance node = - 2 then 1 else 0))"

definition no_path_separation ::
  "bipartite_graph_dimensions \<Rightarrow> bipartite_graph_bfs_node list \<Rightarrow> wheel_state \<Rightarrow> separation \<times> wheel_state" where
  "no_path_separation dim res st =
     (let mx = permuted_matrix st;
          reachable1 = fold (\<lambda>i r. r[m_perm1 mx ! i := row_value dim res i]) [0..<m_size1 mx]
                         (replicate (m_size1 mx) 0);
          split_first = length (filter (\<lambda>i. row_value dim res i = 0) [0..<m_size1 mx]);
          perm1' = sort_key (\<lambda>v. reachable1 ! v) (m_perm1 mx);
          reachable2 = fold (\<lambda>i r. r[m_perm2 mx ! i := column_value dim res i]) [0..<m_size2 mx]
                         (take (m_size2 mx) reachable1 @ replicate (m_size2 mx - m_size1 mx) 0);
          split_second = length (filter (\<lambda>i. column_value dim res i < 2) [0..<m_size2 mx]);
          perm2' = sort_key (\<lambda>v. reachable2 ! v) (m_perm2 mx)
      in (separation2 (split_first, split_second)
            (split_first, (split_second + (2 ^ 64 - 1)) mod 2 ^ 64),
          st\<lparr>permuted_matrix := mx\<lparr>m_perm1 := perm1', m_perm2 := perm2'\<rparr>,
             permuted_matroid := (permuted_matroid st)\<lparr>o_perm1 := perm1', o_perm2 := perm2'\<rparr>\<rparr>))"

text \<open>
  Lines 214 to 219 and lines 250 to 255: the searches for a zero in a row and in a
  column, each with its assertion after the increment.
\<close>

function find_zero_column :: "wheel_state \<Rightarrow> nat \<Rightarrow> nat \<Rightarrow> nat \<Rightarrow> failure + nat" where
  "find_zero_column st w3_path_row block_width w3_zero_column =
     (if entry st w3_path_row w3_zero_column \<noteq> 0 then
        (if w3_zero_column + 1 < block_width
         then find_zero_column st w3_path_row block_width (w3_zero_column + 1)
         else Inl AssertFailed)
      else Inr w3_zero_column)"
  by pat_completeness auto
termination
  by (relation "measure (\<lambda>(st, r, bw, c). bw - c)") auto

declare find_zero_column.simps [simp del]

function find_zero_row :: "wheel_state \<Rightarrow> nat \<Rightarrow> nat \<Rightarrow> nat \<Rightarrow> failure + nat" where
  "find_zero_row st w3_path_column block_height w3_zero_row =
     (if entry st w3_zero_row w3_path_column \<noteq> 0 then
        (if w3_zero_row + 1 < block_height
         then find_zero_row st w3_path_column block_height (w3_zero_row + 1)
         else Inl AssertFailed)
      else Inr w3_zero_row)"
  by pat_completeness auto
termination
  by (relation "measure (\<lambda>(st, c, bh, r). bh - r)") auto

declare find_zero_row.simps [simp del]

text \<open>
  Lines 221 to 248: the walk along the predecessors. The condition of the pivot is
  that of the source; the remainder of the distance by two is zero for the same
  distances in C++ and here. A vector of nodes whose predecessors run in a circle
  keeps the loop running.
\<close>

definition pivot_condition :: "bipartite_graph_bfs_node list \<Rightarrow> nat \<Rightarrow> nat \<Rightarrow> bool" where
  "pivot_condition res nearest_distance current_index =
     (distance (res ! current_index) mod 2 = 0 \<and> 2 \<le> distance (res ! current_index)
      \<and> distance (res ! current_index) + 2 < int nearest_distance)"

partial_function (option) walk_back ::
  "bipartite_graph_dimensions \<Rightarrow> bipartite_graph_bfs_node list \<Rightarrow> nat \<Rightarrow> nat \<Rightarrow> nat
     \<Rightarrow> wheel_state \<Rightarrow> nat \<Rightarrow> nat \<Rightarrow> (failure + (wheel_state \<times> nat \<times> nat)) option" where
  "walk_back dim res nearest_distance last_index current_index st w3_one_row w3_path_column =
     (if last_index \<noteq> current_index then
        (if \<not> current_index < length res then Some (Inl OutOfRange)
         else if distance (res ! current_index) = 1 then
           (if \<not> is_column dim current_index then Some (Inl AssertFailed)
            else walk_back dim res nearest_distance current_index (predecessor (res ! current_index))
                   (if pivot_condition res nearest_distance current_index
                    then pivot_and_record st (indexes_to_coordinates dim current_index last_index) else st)
                   w3_one_row (index_to_column dim current_index))
         else if distance (res ! current_index) = 0 then
           (if \<not> is_row dim current_index then Some (Inl AssertFailed)
            else walk_back dim res nearest_distance current_index (predecessor (res ! current_index))
                   (if pivot_condition res nearest_distance current_index
                    then pivot_and_record st (indexes_to_coordinates dim current_index last_index) else st)
                   (index_to_row dim current_index) w3_path_column)
         else walk_back dim res nearest_distance current_index (predecessor (res ! current_index))
                (if pivot_condition res nearest_distance current_index
                 then pivot_and_record st (indexes_to_coordinates dim current_index last_index) else st)
                w3_one_row w3_path_column)
      else Some (Inr (st, w3_one_row, w3_path_column)))"

text \<open>
  Lines 267 to 295: the three rows and the three columns are brought into ascending
  order of their positions as far as the two comparisons do it, and then exchanged
  with the rows and the columns 0, 1 and 2.
\<close>

definition move_w3 :: "wheel_state \<Rightarrow> nat \<Rightarrow> nat \<Rightarrow> nat \<Rightarrow> nat \<Rightarrow> nat \<Rightarrow> nat \<Rightarrow> wheel_state" where
  "move_w3 st w3_zero_row w3_one_row w3_path_row w3_zero_column w3_one_column w3_path_column =
     (let (st1, one_row1, zero_row1) =
            (if w3_zero_row > w3_one_row
             then (matroid_permute1 st w3_one_row w3_zero_row, w3_zero_row, w3_one_row)
             else (st, w3_one_row, w3_zero_row));
          (st2, path_row2, one_row2) =
            (if one_row1 > w3_path_row
             then (matroid_permute1 st1 w3_path_row one_row1, one_row1, w3_path_row)
             else (st1, w3_path_row, one_row1));
          (st3, one_column3, zero_column3) =
            (if w3_zero_column > w3_one_column
             then (matroid_permute2 st2 w3_one_column w3_zero_column, w3_zero_column, w3_one_column)
             else (st2, w3_one_column, w3_zero_column));
          (st4, path_column4, one_column4) =
            (if one_column3 > w3_path_column
             then (matroid_permute2 st3 w3_path_column one_column3, one_column3, w3_path_column)
             else (st3, w3_path_column, one_column3));
          st5 = matroid_permute1 st4 0 zero_row1;
          st6 = matroid_permute1 st5 1 one_row2;
          st7 = matroid_permute1 st6 2 path_row2;
          st8 = matroid_permute2 st7 0 zero_column3;
          st9 = matroid_permute2 st8 1 one_column4
      in matroid_permute2 st9 2 path_column4)"

text \<open>
  Lines 189 to 298, the case that a path was found: the nearest end node, the zero
  column, the walk, the zero row, the nine assertions on the entries, the move.
\<close>

definition extract_wheel ::
  "bipartite_graph_dimensions \<Rightarrow> bipartite_graph_bfs_node list \<Rightarrow> wheel_state \<Rightarrow> nat \<Rightarrow> nat \<Rightarrow> nat list
     \<Rightarrow> (failure + (separation \<times> wheel_state)) option" where
  "extract_wheel dim res st block_height block_width end_nodes =
     (let nearest_end = foldl (\<lambda>nearest e. if is_reachable (res ! e) then e else nearest) 0 end_nodes
      in if \<not> nearest_end < length res then Some (Inl OutOfRange)
         else if \<not> is_reachable (res ! nearest_end) then Some (Inl AssertFailed)
         else
           let w3_one_column = index_to_column dim nearest_end;
               nearest_distance = nat (distance (res ! nearest_end) + 1)
           in if nearest_distance mod 2 \<noteq> 0 then Some (Inl AssertFailed)
              else
                let last_index = nearest_end;
                    current_index = predecessor (res ! last_index);
                    w3_path_row = index_to_row dim current_index
                in case find_zero_column st w3_path_row block_width 0 of
                     Inl e \<Rightarrow> Some (Inl e)
                   | Inr w3_zero_column \<Rightarrow>
                       (case walk_back dim res nearest_distance last_index current_index st 0 0 of
                          None \<Rightarrow> None
                        | Some (Inl e) \<Rightarrow> Some (Inl e)
                        | Some (Inr (st1, w3_one_row, w3_path_column)) \<Rightarrow>
                            (case find_zero_row st1 w3_path_column block_height 0 of
                               Inl e \<Rightarrow> Some (Inl e)
                             | Inr w3_zero_row \<Rightarrow>
                                 if \<not> (entry st1 w3_one_row w3_one_column = 1
                                      \<and> entry st1 w3_one_row w3_zero_column = 1
                                      \<and> entry st1 w3_one_row w3_path_column = 1
                                      \<and> entry st1 w3_zero_row w3_one_column = 1
                                      \<and> entry st1 w3_zero_row w3_zero_column = 1
                                      \<and> entry st1 w3_zero_row w3_path_column = 0
                                      \<and> entry st1 w3_path_row w3_one_column = 1
                                      \<and> entry st1 w3_path_row w3_zero_column = 0
                                      \<and> entry st1 w3_path_row w3_path_column = 1)
                                 then Some (Inl AssertFailed)
                                 else Some (Inr (separation_empty,
                                        move_w3 st1 w3_zero_row w3_one_row w3_path_row
                                          w3_zero_column w3_one_column w3_path_column)))))"

text \<open>
  \<^verbatim>\<open>find_wheel_minor\<close>, lines 47 to 299. The search returns a vector with one node for
  every row and every column; with a vector of another length the reads of the function
  would fall outside of it.
\<close>

definition find_wheel_minor ::
  "bfs_function \<Rightarrow> wheel_state \<Rightarrow> (failure + (separation \<times> wheel_state)) option" where
  "find_wheel_minor bipartite_graph_bfs st =
     (case grow_block st of
        Inl e \<Rightarrow> Some (Inl e)
      | Inr (Separated sep st') \<Rightarrow> Some (Inr (sep, st'))
      | Inr (Block st5 block_height block_width) \<Rightarrow>
          (let dim = \<lparr>height = m_size1 (permuted_matrix st5), width = m_size2 (permuted_matrix st5)\<rparr>;
               start_nodes = map (row_to_index dim) [0..<block_height];
               end_nodes = map (column_to_index dim) [0..<block_width];
               (found_path, bfs_result) =
                 bipartite_graph_bfs (modified_matrix st5 block_height block_width) dim
                   start_nodes end_nodes False
           in if length bfs_result \<noteq> height dim + width dim then Some (Inl OutOfRange)
              else if \<not> found_path then Some (Inr (no_path_separation dim bfs_result st5))
              else extract_wheel dim bfs_result st5 block_height block_width end_nodes))"

subsection \<open>Notions used to state the properties of the wheel-minor search\<close>

text \<open>
  The dimensions, start nodes and end nodes that \<^verbatim>\<open>find_wheel_minor\<close> hands to the search
  for a block of the given height and width, and the result of that search.
\<close>

definition wheel_dim :: "wheel_state \<Rightarrow> bipartite_graph_dimensions" where
  "wheel_dim st = \<lparr>height = m_size1 (permuted_matrix st), width = m_size2 (permuted_matrix st)\<rparr>"

definition wheel_start_nodes :: "wheel_state \<Rightarrow> nat \<Rightarrow> nat list" where
  "wheel_start_nodes st block_height = map (row_to_index (wheel_dim st)) [0..<block_height]"

definition wheel_end_nodes :: "wheel_state \<Rightarrow> nat \<Rightarrow> nat list" where
  "wheel_end_nodes st block_width = map (column_to_index (wheel_dim st)) [0..<block_width]"

definition wheel_search ::
  "bfs_function \<Rightarrow> wheel_state \<Rightarrow> nat \<Rightarrow> nat \<Rightarrow> bool \<times> bipartite_graph_bfs_node list" where
  "wheel_search bipartite_graph_bfs st block_height block_width =
     bipartite_graph_bfs (modified_matrix st block_height block_width) (wheel_dim st)
       (wheel_start_nodes st block_height) (wheel_end_nodes st block_width) False"

text \<open>
  Modelled from the spec: \<^verbatim>\<open>bipartite_graph_bfs\<close>, of which the specification says that it
  is a breadth-first search on the bipartite row/column graph from the block rows to the
  block columns. Two nodes are adjacent if one is a row, the other a column, and the
  entry of the matrix in that row and column is not zero. \<open>bfs_correct\<close> says what such a
  search returns when it stops as soon as end nodes are reached:
  \<^item> one node for every row and column;
  \<^item> the start nodes have the distance 0;
  \<^item> a node of distance 0 is a start node and its own predecessor;
  \<^item> the predecessor of a node of positive distance is adjacent to it and one step
    nearer;
  \<^item> a node that was not reached has the distance \<open>-2\<close> if it is an end node and \<open>-1\<close>
    otherwise;
  \<^item> a path was found if and only if an end node was reached;
  \<^item> no node that was reached is further than an end node that was reached;
  \<^item> a node adjacent to a reached node that is at least two steps nearer than every
    end node that was reached has been reached itself, at most one step further.
\<close>

definition adjacent :: "(nat \<Rightarrow> nat \<Rightarrow> int) \<Rightarrow> bipartite_graph_dimensions \<Rightarrow> nat \<Rightarrow> nat \<Rightarrow> bool" where
  "adjacent M dim v u =
     (is_row dim v \<noteq> is_row dim u
      \<and> M (fst (indexes_to_coordinates dim v u)) (snd (indexes_to_coordinates dim v u)) \<noteq> 0)"

definition bfs_correct ::
  "(nat \<Rightarrow> nat \<Rightarrow> int) \<Rightarrow> bipartite_graph_dimensions \<Rightarrow> nat list \<Rightarrow> nat list
     \<Rightarrow> bool \<times> bipartite_graph_bfs_node list \<Rightarrow> bool" where
  "bfs_correct M dim start_nodes end_nodes r =
     (let found_path = fst r; res = snd r; n = height dim + width dim
      in length res = n
       \<and> list_all (\<lambda>s. s < n \<and> distance (res ! s) = 0) start_nodes
       \<and> list_all (\<lambda>u.
             (distance (res ! u) = 0 \<longrightarrow> u \<in> set start_nodes \<and> predecessor (res ! u) = u)
           \<and> (0 < distance (res ! u) \<longrightarrow>
                predecessor (res ! u) < n
              \<and> distance (res ! predecessor (res ! u)) = distance (res ! u) - 1
              \<and> adjacent M dim (predecessor (res ! u)) u)
           \<and> (distance (res ! u) < 0 \<longrightarrow>
                distance (res ! u) = (if u \<in> set end_nodes then - 2 else - 1))) [0..<n]
       \<and> found_path = list_ex (\<lambda>e. is_reachable (res ! e)) end_nodes
       \<and> list_all (\<lambda>u. list_all (\<lambda>e.
             is_reachable (res ! u) \<and> is_reachable (res ! e) \<longrightarrow> distance (res ! u) \<le> distance (res ! e))
             end_nodes) [0..<n]
       \<and> list_all (\<lambda>v. list_all (\<lambda>u.
             is_reachable (res ! v) \<and> adjacent M dim v u
             \<and> list_all (\<lambda>e. is_reachable (res ! e) \<longrightarrow> distance (res ! v) + 1 < distance (res ! e)) end_nodes
             \<longrightarrow> is_reachable (res ! u) \<and> distance (res ! u) \<le> distance (res ! v) + 1) [0..<n]) [0..<n])"

definition search_correct :: "bfs_function \<Rightarrow> wheel_state \<Rightarrow> nat \<Rightarrow> nat \<Rightarrow> bool" where
  "search_correct bipartite_graph_bfs st block_height block_width =
     bfs_correct (modified_matrix st block_height block_width) (wheel_dim st)
       (wheel_start_nodes st block_height) (wheel_end_nodes st block_width)
       (wheel_search bipartite_graph_bfs st block_height block_width)"

text \<open>
  The matrices that \<^verbatim>\<open>find_wheel_minor\<close> is made for are those of binary matroids: every
  entry of the permuted matrix is zero or one.
\<close>

definition binary_matrix :: "wheel_state \<Rightarrow> bool" where
  "binary_matrix st =
     list_all (\<lambda>i. list_all (\<lambda>j. entry st i j = 0 \<or> entry st i j = 1)
                       [0..<m_size2 (permuted_matrix st)])
       [0..<m_size1 (permuted_matrix st)]"

text \<open>
  The path that the walk of lines 221 to 248 follows: \<open>walk_path res last current path\<close>
  holds if the loop, entered with these two indices, runs through the pairs of \<open>path\<close>
  (the current index and the last index of each round) and then ends. \<open>pivots_of\<close> are
  the coordinates of the pairs of a path that meet the condition of the pivot, and
  \<open>recorded_row\<close> and \<open>recorded_column\<close> the values that the rounds leave in
  \<^verbatim>\<open>w3_one_row\<close> and \<^verbatim>\<open>w3_path_column\<close>.
\<close>

inductive walk_path :: "bipartite_graph_bfs_node list \<Rightarrow> nat \<Rightarrow> nat \<Rightarrow> (nat \<times> nat) list \<Rightarrow> bool" where
  walk_end: "walk_path res current_index current_index []"
| walk_step: "last_index \<noteq> current_index \<Longrightarrow> current_index < length res \<Longrightarrow>
     walk_path res current_index (predecessor (res ! current_index)) path \<Longrightarrow>
     walk_path res last_index current_index ((current_index, last_index) # path)"

definition pivots_of ::
  "bipartite_graph_dimensions \<Rightarrow> bipartite_graph_bfs_node list \<Rightarrow> nat \<Rightarrow> (nat \<times> nat) list \<Rightarrow> (nat \<times> nat) list" where
  "pivots_of dim res nearest_distance path =
     map (\<lambda>(c, l). indexes_to_coordinates dim c l)
       (filter (\<lambda>(c, l). pivot_condition res nearest_distance c) path)"

definition recorded_row ::
  "bipartite_graph_dimensions \<Rightarrow> bipartite_graph_bfs_node list \<Rightarrow> nat \<Rightarrow> (nat \<times> nat) list \<Rightarrow> nat" where
  "recorded_row dim res w3_one_row path =
     foldl (\<lambda>r (c, l). if distance (res ! c) = 0 then index_to_row dim c else r) w3_one_row path"

definition recorded_column ::
  "bipartite_graph_dimensions \<Rightarrow> bipartite_graph_bfs_node list \<Rightarrow> nat \<Rightarrow> (nat \<times> nat) list \<Rightarrow> nat" where
  "recorded_column dim res w3_path_column path =
     foldl (\<lambda>r (c, l). if distance (res ! c) = 1 then index_to_column dim c else r) w3_path_column path"

definition asserts_hold ::
  "bipartite_graph_dimensions \<Rightarrow> bipartite_graph_bfs_node list \<Rightarrow> (nat \<times> nat) list \<Rightarrow> bool" where
  "asserts_hold dim res path =
     list_all (\<lambda>(c, l). (distance (res ! c) = 1 \<longrightarrow> is_column dim c)
                      \<and> (distance (res ! c) = 0 \<longrightarrow> is_row dim c)) path"

text \<open>
  What lines 267 to 295 do to a permutation: the same exchanges as \<open>move_w3\<close>, on a
  list. The lemmas on \<open>move_w3\<close> are stated with it.
\<close>

definition order3 :: "'a list \<Rightarrow> nat \<Rightarrow> nat \<Rightarrow> nat \<Rightarrow> 'a list" where
  "order3 xs z o' p =
     (let (xs1, o1, z1) = (if z > o' then (swap_entries o' z xs, z, o') else (xs, o', z));
          (xs2, p2, o2) = (if o1 > p then (swap_entries p o1 xs1, o1, p) else (xs1, p, o1))
      in swap_entries 2 p2 (swap_entries 1 o2 (swap_entries 0 z1 xs2)))"

subsection \<open>An example\<close>

text \<open>
  A matrix with four rows and four columns whose rows and columns form one cycle through
  the block of ones in the upper left corner. Growing the block exchanges the rows 2 and
  3; the search then reaches the block column 1 at distance 5, over the column 2, the
  row 3, the column 3 and the row 2 of the reordered matrix, and the walk back pivots
  once, at the row 3 and the column 3. \<open>demo_nodes\<close> is the result of a breadth-first
  search on this graph, \<open>demo_bfs\<close> the search that returns it, and \<open>demo_minor\<close> the
  state that \<open>find_wheel_minor\<close> ends with.
\<close>

definition demo_wheel :: wheel_state where
  "demo_wheel =
     \<lparr>permuted_matroid =
        \<lparr>o_name1 = (\<lambda>i. - int i - 1), o_name2 = (\<lambda>j. int j + 1), o_size1 = 4, o_size2 = 4,
         o_perm1 = [0, 1, 2, 3], o_perm2 = [0, 1, 2, 3]\<rparr>,
      permuted_matrix =
        \<lparr>m_data = (\<lambda>i j. [[1, 1, 0, 0], [1, 1, 1, 0], [0, 0, 1, 1], [0, 1, 0, 1]] ! i ! j),
         m_size1 = 4, m_size2 = 4, m_perm1 = [0, 1, 2, 3], m_perm2 = [0, 1, 2, 3]\<rparr>,
      extra_elements = {}\<rparr>"

definition demo_block :: wheel_state where
  "demo_block =
     demo_wheel\<lparr>permuted_matroid := (permuted_matroid demo_wheel)\<lparr>o_perm1 := [0, 1, 3, 2]\<rparr>,
                permuted_matrix := (permuted_matrix demo_wheel)\<lparr>m_perm1 := [0, 1, 3, 2]\<rparr>\<rparr>"

definition demo_nodes :: "bipartite_graph_bfs_node list" where
  "demo_nodes =
     [\<lparr>distance = 0, predecessor = 0\<rparr>, \<lparr>distance = 0, predecessor = 1\<rparr>,
      \<lparr>distance = 4, predecessor = 7\<rparr>, \<lparr>distance = 2, predecessor = 6\<rparr>,
      \<lparr>distance = - 2, predecessor = 4\<rparr>, \<lparr>distance = 5, predecessor = 2\<rparr>,
      \<lparr>distance = 1, predecessor = 1\<rparr>, \<lparr>distance = 3, predecessor = 3\<rparr>]"

definition demo_bfs :: bfs_function where
  "demo_bfs M dim start_nodes end_nodes reach_all = (True, demo_nodes)"

definition demo_minor :: wheel_state where
  "demo_minor = move_w3 (pivot_and_record demo_block (3, 3)) 0 1 2 0 1 2"

text \<open>
  A matrix with three rows and four columns in which no path leads from the block rows
  to a block column: the column 2 hangs on the row 1 alone, and the row 2 and the column
  3 form a component of their own. \<open>demo_split_nodes\<close> is the result of a breadth-first
  search on its graph, and \<open>demo_split_bfs\<close> the search that returns it.
\<close>

definition demo_split_wheel :: wheel_state where
  "demo_split_wheel =
     \<lparr>permuted_matroid =
        \<lparr>o_name1 = (\<lambda>i. - int i - 1), o_name2 = (\<lambda>j. int j + 1), o_size1 = 3, o_size2 = 4,
         o_perm1 = [0, 1, 2], o_perm2 = [0, 1, 2, 3]\<rparr>,
      permuted_matrix =
        \<lparr>m_data = (\<lambda>i j. [[1, 1, 0, 0], [1, 1, 1, 0], [0, 0, 0, 1]] ! i ! j),
         m_size1 = 3, m_size2 = 4, m_perm1 = [0, 1, 2], m_perm2 = [0, 1, 2, 3]\<rparr>,
      extra_elements = {}\<rparr>"

definition demo_split_nodes :: "bipartite_graph_bfs_node list" where
  "demo_split_nodes =
     [\<lparr>distance = 0, predecessor = 0\<rparr>, \<lparr>distance = 0, predecessor = 1\<rparr>,
      \<lparr>distance = - 1, predecessor = 2\<rparr>, \<lparr>distance = - 2, predecessor = 3\<rparr>,
      \<lparr>distance = - 2, predecessor = 4\<rparr>, \<lparr>distance = 1, predecessor = 1\<rparr>,
      \<lparr>distance = - 1, predecessor = 6\<rparr>]"

definition demo_split_bfs :: bfs_function where
  "demo_split_bfs M dim start_nodes end_nodes reach_all = (False, demo_split_nodes)"

definition demo_split_result :: wheel_state where
  "demo_split_result =
     demo_split_wheel
       \<lparr>permuted_matrix := (permuted_matrix demo_split_wheel)\<lparr>m_perm1 := [2, 0, 1], m_perm2 := [3, 0, 1, 2]\<rparr>,
        permuted_matroid := (permuted_matroid demo_split_wheel)\<lparr>o_perm1 := [2, 0, 1], o_perm2 := [3, 0, 1, 2]\<rparr>\<rparr>"







section \<open>Properties of the decomposition driver\<close>

subsection \<open>The chain of a queue\<close>

lemma chain_frame:
  "chain n ts x = Some ps \<Longrightarrow> p \<notin> set ps \<Longrightarrow> chain n (ts(p := v)) x = Some ps"
proof (induction n ts x arbitrary: ps rule: chain.induct)
  case (1 n ts)
  then show ?case by simp
next
  case (2 ts q)
  then show ?case by simp
next
  case (3 n ts q)
  then show ?case
    by (auto split: option.splits)
qed

lemma chain_mono:
  "chain n ts x = Some ps \<Longrightarrow> chain (n + k) ts x = Some ps"
  by (induction n ts x arbitrary: ps rule: chain.induct) (auto split: option.splits)

lemma chain_length:
  "chain n ts x = Some ps \<Longrightarrow> length ps \<le> n"
  by (induction n ts x arbitrary: ps rule: chain.induct) (auto split: option.splits)

lemma chain_unique:
  "chain n ts x = Some ps \<Longrightarrow> chain m ts x = Some qs \<Longrightarrow> ps = qs"
proof (induction n ts x arbitrary: ps qs m rule: chain.induct)
  case (1 n ts)
  then show ?case by simp
next
  case (2 ts q)
  then show ?case by simp
next
  case (3 n ts q)
  then show ?case
    by (cases m) (auto split: option.splits)
qed

lemma chain_suffix:
  "chain n ts x = Some ps \<Longrightarrow> p \<in> set ps \<Longrightarrow>
     \<exists>pre post. ps = pre @ p # post \<and> chain n ts (Some p) = Some (p # post)"
proof (induction n ts x arbitrary: ps rule: chain.induct)
  case (1 n ts)
  then show ?case by simp
next
  case (2 ts q)
  then show ?case by simp
next
  case (3 n ts q)
  from "3.prems" obtain t rest where t: "ts q = Some t"
    and rest: "chain n ts (task_next t) = Some rest" and ps: "ps = q # rest"
    by (auto split: option.splits)
  show ?case
  proof (cases "p = q")
    case True
    then show ?thesis using "3.prems" ps by (intro exI[of _ "[]"] exI[of _ rest]) simp
  next
    case False
    then have "p \<in> set rest" using "3.prems" ps by simp
    from "3.IH"[OF t rest this] obtain pre post where
      "rest = pre @ p # post" "chain n ts (Some p) = Some (p # post)" by blast
    then show ?thesis using ps chain_mono[of n ts "Some p" "p # post" 1]
      by (intro exI[of _ "q # pre"] exI[of _ post]) simp
  qed
qed

lemma chain_distinct:
  "chain n ts x = Some ps \<Longrightarrow> distinct ps"
proof (induction n ts x arbitrary: ps rule: chain.induct)
  case (1 n ts)
  then show ?case by simp
next
  case (2 ts q)
  then show ?case by simp
next
  case (3 n ts q)
  from "3.prems" obtain t rest where t: "ts q = Some t"
    and rest: "chain n ts (task_next t) = Some rest" and ps: "ps = q # rest"
    by (auto split: option.splits)
  have d: "distinct rest" using "3.IH"[OF t rest] .
  have "q \<notin> set rest"
  proof
    assume "q \<in> set rest"
    from chain_suffix[OF rest this] obtain pre post where
      r: "rest = pre @ q # post" and c: "chain n ts (Some q) = Some (q # post)" by blast
    from chain_unique[OF "3.prems" c] ps have "rest = post" by simp
    with r show False by simp
  qed
  with d ps show ?case by simp
qed

lemma push_chain:
  assumes "chain n ts x = Some ps" and "task \<notin> set ps" and "ts task = Some t"
  shows "chain (Suc n) (ts(task \<mapsto> t\<lparr>task_next := x\<rparr>)) (Some task) = Some (task # ps)"
  using chain_frame[OF assms(1,2), of "Some (t\<lparr>task_next := x\<rparr>)"] by simp

lemma pop_chain:
  assumes "chain n ts (Some h) = Some ps" and "ts h = Some th"
  shows "\<exists>rest. ps = h # rest \<and> chain n (ts(h \<mapsto> th\<lparr>task_next := None\<rparr>)) (task_next th) = Some rest"
proof -
  from assms obtain m rest where n: "n = Suc m" and ps: "ps = h # rest"
    and rest: "chain m ts (task_next th) = Some rest"
    by (cases n) (auto split: option.splits)
  from chain_distinct[OF assms(1)] ps have "h \<notin> set rest" by simp
  from chain_frame[OF rest this] have "chain m (ts(h \<mapsto> th\<lparr>task_next := None\<rparr>)) (task_next th) = Some rest" .
  from chain_mono[OF this, of 1] n ps show ?thesis by simp
qed

subsection \<open>What a successful run consists of\<close>

lemma regularity_loop_exit_aux:
  "regularity_loop cmr ps queue s = Some r \<Longrightarrow>
     (case r of Inl e \<Rightarrow> True
      | Inr s' \<Rightarrow> \<exists>q. queues s' queue = Some q
                   \<and> (head q = None \<or> (\<not> completeTree ps \<and> foundIrregularity q)))"
proof (induction rule: regularity_loop.raw_induct[rotated 1, consumes 1])
  case (1 loop cmr ps queue s r)
  note IH = "1"(1) and eq = "1"(2)
  show ?case
  proof (cases r)
    case (Inl e)
    then show ?thesis by simp
  next
    case (Inr s')
    from eq Inr obtain q where q: "queues s queue = Some q"
      by (auto simp: CMRregularityQueueEmpty_def split: option.splits)
    show ?thesis
    proof (cases "head q \<noteq> None \<and> (completeTree ps \<or> \<not> foundIrregularity q)")
      case False
      with eq q Inr show ?thesis
        by (auto simp: CMRregularityQueueEmpty_def)
    next
      case True
      with eq q Inr obtain task s1 s2 where "loop cmr ps queue s2 = Some (Inr s')"
        by (auto simp: CMRregularityQueueEmpty_def split: sum.splits prod.splits)
      from IH[OF this] Inr show ?thesis by simp
    qed
  qed
qed

lemma regularity_loop_exit:
  "regularity_loop cmr ps queue s = Some (Inr s') \<Longrightarrow>
     \<exists>q. queues s' queue = Some q \<and> (head q = None \<or> (\<not> completeTree ps \<and> foundIrregularity q))"
  using regularity_loop_exit_aux[of cmr ps queue s "Inr s'"] by simp

lemma find_root_result_aux:
  "find_root s p = Some r \<Longrightarrow>
     (case r of Inl e \<Rightarrow> True
      | Inr root \<Rightarrow> (parent_link s)\<^sup>*\<^sup>* p root \<and> (\<exists>d. decs s root = Some d \<and> parent d = None))"
proof (induction rule: find_root.raw_induct[rotated 1, consumes 1])
  case (1 find s p r)
  note IH = "1"(1) and eq = "1"(2)
  show ?case
  proof (cases r)
    case (Inl e)
    then show ?thesis by simp
  next
    case (Inr root)
    from eq Inr obtain d where d: "decs s p = Some d" by (auto split: option.splits)
    show ?thesis
    proof (cases "parent d")
      case None
      with d eq Inr show ?thesis by auto
    next
      case (Some b)
      with d eq Inr have "find s b = Some (Inr root)" by simp
      from IH[OF this] have "(parent_link s)\<^sup>*\<^sup>* b root"
        and "\<exists>d. decs s root = Some d \<and> parent d = None" by auto
      moreover have "parent_link s p b" using Some d
        by (simp add: parent_link_def)
      ultimately show ?thesis using Inr by (auto intro: converse_rtranclp_into_rtranclp)
    qed
  qed
qed

lemma find_root_result:
  "find_root s p = Some (Inr root) \<Longrightarrow>
     (parent_link s)\<^sup>*\<^sup>* p root \<and> (\<exists>d. decs s root = Some d \<and> parent d = None)"
  using find_root_result_aux[of s p "Inr root"] by simp

lemma free_children_result_aux:
  "free_children cmr decp c s = Some r \<Longrightarrow>
     (case r of Inl e \<Rightarrow> True
      | Inr s' \<Rightarrow> \<exists>c' d. frees cmr decp c s c' s' \<and> decs s' decp = Some d \<and> length (children d) \<le> c')"
proof (induction rule: free_children.raw_induct[rotated 1, consumes 1])
  case (1 free cmr decp c s r)
  note IH = "1"(1) and eq = "1"(2)
  show ?case
  proof (cases r)
    case (Inl e)
    then show ?thesis by simp
  next
    case (Inr s')
    from eq Inr obtain d where d: "decs s decp = Some d" by (auto split: option.splits)
    show ?thesis
    proof (cases "c < length (children d)")
      case False
      with d eq Inr show ?thesis by (auto intro: frees_done)
    next
      case True
      with d eq Inr obtain s1 where f: "CMRmatroiddecFree cmr (ChildPointer decp c) s = Inr s1"
        and r: "free cmr decp (c + 1) s1 = Some (Inr s')"
        by (auto split: sum.splits)
      from IH[OF r] obtain c' d' where "frees cmr decp (Suc c) s1 c' s'"
        "decs s' decp = Some d'" "length (children d') \<le> c'" by auto
      with d True f Inr show ?thesis by (auto intro: frees_step)
    qed
  qed
qed

lemma free_children_result:
  "free_children cmr decp c s = Some (Inr s') \<Longrightarrow>
     \<exists>c' d. frees cmr decp c s c' s' \<and> decs s' decp = Some d \<and> length (children d) \<le> c'"
  using free_children_result_aux[of cmr decp c s "Inr s'"] by simp

lemma seed_queue_result:
  "seed_queue cmr d ps st time tlimit s = Inr (queue, s1) \<Longrightarrow>
     decs s1 = decs s \<and> statistics s1 = statistics s \<and>
     (\<exists>task t q. queues s1 queue = Some q \<and> head q = Some task \<and> \<not> foundIrregularity q
        \<and> tasks s1 task = Some t \<and> dec t = d \<and> task_next t = None \<and> params t = ps
        \<and> chain 1 (tasks s1) (head q) = Some [task])"
  by (auto simp: seed_queue_def CMRregularityQueueCreate_def CMRregularityTaskCreateRoot_def
      CMRregularityQueueAdd_def split: sum.splits option.splits prod.splits if_splits)

lemma finalise_result:
  "finalise cmr root queue s = Some (Inr s3) \<Longrightarrow>
     \<exists>sq d. CMRregularityQueueFree (Some queue) s = Some (Inr sq)
       \<and> CMRmatroiddecSetAttributes cmr root sq = Inr s3
       \<and> decs s3 root = Some d \<and> regularity d \<noteq> 0"
  by (auto simp: finalise_def split: sum.splits option.splits if_splits)

lemma Test_result:
  "CMRregularityTest cmr m ternary pisRegular pdec pminor ps st tlimit s = Some (Inr (out, s')) \<Longrightarrow>
     \<exists>root queue time s1 s2 s3.
        Test_init cmr m ternary ps st tlimit s = Inr (root, queue, time, s1)
      \<and> regularity_loop cmr ps queue s1 = Some (Inr s2)
      \<and> finalise cmr root queue s2 = Some (Inr s3)
      \<and> Test_output cmr root pisRegular pdec st time s3 = Inr (out, s')"
  by (auto simp: CMRregularityTest_def split: sum.splits option.splits prod.splits)

lemma Complete_result:
  "CMRregularityCompleteDecomposition cmr decp ps st tlimit s = Some (Inr s') \<Longrightarrow>
     \<exists>root queue time s1 s2 s3.
        Complete_init cmr decp ps st tlimit s = Some (Inr (root, queue, time, s1))
      \<and> regularity_loop cmr ps queue s1 = Some (Inr s2)
      \<and> finalise cmr root queue s2 = Some (Inr s3)
      \<and> stats_time cmr st time s3 = Inr s'"
  by (auto simp: CMRregularityCompleteDecomposition_def split: sum.splits option.splits prod.splits)

lemma Complete_init_result:
  "Complete_init cmr decp ps st tlimit s = Some (Inr (root, queue, time, s1)) \<Longrightarrow>
     \<exists>s0 sf d2.
        find_root s decp = Some (Inr root)
      \<and> stats_count st s = Inr s0
      \<and> free_children cmr decp 0 s0 = Some (Inr sf)
      \<and> decs sf decp = Some d2
      \<and> seed_queue cmr decp ps st time tlimit
           (sf\<lparr>decs := (decs sf)(decp \<mapsto> d2\<lparr>dec_type := TYPE_UNKNOWN\<rparr>)\<rparr>) = Inr (queue, s1)"
  by (auto simp: Complete_init_def split: sum.splits option.splits prod.splits)

lemma stats_time_decs: "stats_time cmr st time s = Inr s' \<Longrightarrow> decs s' = decs s"
  by (auto simp: stats_time_def split: option.splits)

lemma Test_output_result:
  "Test_output cmr root pisRegular pdec st time s3 = Inr (out, s') \<Longrightarrow> decs s3 root = Some d \<Longrightarrow>
     isRegular out = (if pisRegular then Some (0 < regularity d) else None)
   \<and> pdec_out out = (if pdec then Some root else None)
   \<and> (if pdec then decs s' = decs s3
       else (\<exists>s4. CMRmatroiddecFree cmr (LocalPointer root) s3 = Inr s4 \<and> decs s' = decs s4))"
  by (auto simp: Test_output_def dest: stats_time_decs split: sum.splits option.splits if_splits)

lemma frees_frame:
  "frees cmr decp c s c' s' \<Longrightarrow>
     (\<And>k x y. CMRmatroiddecFree cmr (ChildPointer decp k) x = Inr y \<Longrightarrow> decs y p = decs x p) \<Longrightarrow>
     decs s' p = decs s p"
  by (induction rule: frees.induct) auto

lemma stats_count_decs: "stats_count st s = Inr s' \<Longrightarrow> decs s' = decs s"
  by (auto simp: stats_count_def split: option.splits)

lemmas driver_defs =
  CMRregularityQueueEmpty_def CMRregularityQueueRemove_def CMRregularityQueueAdd_def
  CMRregularityTaskCreateRoot_def CMRregularityTaskFree_def CMRregularityQueueCreate_def
  CMRregularityQueueFree_def CMRregularityTaskRun_def stats_count_def stats_time_def
  seed_queue_def finalise_def Test_init_def Test_output_def CMRregularityTest_def
  Complete_init_def CMRregularityCompleteDecomposition_def

lemmas demo_defs =
  demo_dec_def demo_stage_def demo_attributes_def demo_free_def demo_cmr_def demo_params_def
  empty_state_def demo_tree_def demo_queue_def demo_tested_def demo_completed_def

subsection \<open>Runs in the concrete environment\<close>

lemma test_demo:
  "CMRregularityTest demo_cmr \<lparr>numRows = 3, numColumns = 3\<rparr> False True True False demo_params None 0
     empty_state =
   Some (Inr (\<lparr>isRegular = Some False, pdec_out = Some 0\<rparr>, demo_tested))"
  by (simp add: driver_defs demo_defs regularity_loop.simps QueueFree_loop.simps)

lemma complete_demo:
  "CMRregularityCompleteDecomposition demo_cmr 1 demo_params None 0 demo_tree =
   Some (Inr demo_completed)"
  by (simp add: driver_defs demo_defs find_root.simps free_children.simps regularity_loop.simps
      QueueFree_loop.simps)

lemma test_demo_free:
  "CMRregularityTest demo_cmr \<lparr>numRows = 3, numColumns = 3\<rparr> False False False False demo_params None 0
     empty_state =
   Some (Inr (\<lparr>isRegular = None, pdec_out = None\<rparr>, empty_state))"
  by (simp add: driver_defs demo_defs regularity_loop.simps QueueFree_loop.simps)

subsection \<open>The claims about the driver\<close>

text \<open>
  Claim C1. For a task that has been removed from the queue, \<^verbatim>\<open>CMRregularityTaskRun\<close> runs
  exactly one stage: its result is the result of one call of a stage function on the
  memory it was given, and that stage is the one named by the first rule of the ordered
  decision table whose guard holds for the task's node and parameters.
\<close>

theorem dispatcher_first_matching:
  assumes "tasks s task = Some t" and "decs s (dec t) = Some d"
  shows "\<exists>st. first_matching decision_table (params t) d = Some st
           \<and> CMRregularityTaskRun cmr task queue s = run_stage cmr st task queue s"
  using assms
  unfolding CMRregularityTaskRun_def decision_table_def small_or_direct_def
  by (cases "testedTwoConnected d"; cases "graphicness d = 0"; cases "cographicness d = 0";
      cases "testedR10 d"; cases "testedSeriesParallel d"; cases "denseMatrix d = None";
      cases "nestedMinorsMatrix d = None"; simp)

theorem dispatcher_first_matching_witness:
  "tasks demo_queue 7 = Some \<lparr>dec = 0, task_next = None, params = demo_params, stats = None,
                                startClock = 0, timeLimit = 0\<rparr>
   \<and> decs demo_queue 0
        = Some (demo_dec\<lparr>testedTwoConnected := True, graphicness := 1, cographicness := - 1\<rparr>)
   \<and> first_matching decision_table demo_params
         (demo_dec\<lparr>testedTwoConnected := True, graphicness := 1, cographicness := - 1\<rparr>) = Some TestR10
   \<and> CMRregularityTaskRun demo_cmr 7 0 demo_queue = run_stage demo_cmr TestR10 7 0 demo_queue"
proof -
  let ?t = "\<lparr>dec = 0, task_next = None, params = demo_params, stats = None,
              startClock = 0, timeLimit = 0\<rparr>"
  let ?d = "demo_dec\<lparr>testedTwoConnected := True, graphicness := 1, cographicness := - 1\<rparr>"
  have t: "tasks demo_queue 7 = Some ?t" by (simp add: demo_queue_def)
  have d: "decs demo_queue (dec ?t) = Some ?d" by (simp add: demo_queue_def)
  have f: "first_matching decision_table (params ?t) ?d = Some TestR10"
    by (simp add: decision_table_def small_or_direct_def demo_dec_def)
  from dispatcher_first_matching[OF t d, of demo_cmr 0] f
  have "CMRregularityTaskRun demo_cmr 7 0 demo_queue = run_stage demo_cmr TestR10 7 0 demo_queue"
    by auto
  with t d f show ?thesis by simp
qed

text \<open>
  Claim C2. The loop of both entry points runs exactly while the queue is not empty and
  (\<open>completeTree\<close> holds or \<open>foundIrregularity\<close> does not): when the condition fails the loop
  returns the memory unchanged; when it holds, the head is removed and run to its end,
  and the loop goes on from the memory that the stage returned. So when a stage
  returns with the flag raised and \<open>completeTree\<close> is false, the loop ends with exactly
  the memory that stage returned, whatever the queue still holds. Whenever
  \<^verbatim>\<open>CMRregularityTest\<close> or \<^verbatim>\<open>CMRregularityCompleteDecomposition\<close> returns \<^verbatim>\<open>CMR_OKAY\<close>, its loop
  has ended in a memory in which the condition fails.
\<close>

theorem driver_loop_condition:
  "(queues s queue = Some q \<longrightarrow> (head q = None \<or> (\<not> completeTree ps \<and> foundIrregularity q)) \<longrightarrow>
      regularity_loop cmr ps queue s = Some (Inr s))
 \<and> (queues s queue = Some q \<longrightarrow> head q \<noteq> None \<longrightarrow> (completeTree ps \<or> \<not> foundIrregularity q) \<longrightarrow>
      regularity_loop cmr ps queue s =
        (case CMRregularityQueueRemove queue s of
           Inl e \<Rightarrow> Some (Inl e)
         | Inr (task, s1) \<Rightarrow>
             (case CMRregularityTaskRun cmr task queue s1 of
                Inl e \<Rightarrow> Some (Inl e)
              | Inr s2 \<Rightarrow> regularity_loop cmr ps queue s2)))
 \<and> (queues s queue = Some q \<longrightarrow> head q \<noteq> None \<longrightarrow> (completeTree ps \<or> \<not> foundIrregularity q) \<longrightarrow>
      CMRregularityQueueRemove queue s = Inr (task, s1) \<longrightarrow>
      CMRregularityTaskRun cmr task queue s1 = Inr s2 \<longrightarrow>
      queues s2 queue = Some q2 \<longrightarrow> \<not> completeTree ps \<longrightarrow> foundIrregularity q2 \<longrightarrow>
      regularity_loop cmr ps queue s = Some (Inr s2))
 \<and> (CMRregularityTest cmr m ternary pisRegular pdec pminor ps st tlimit t0 = Some (Inr (out, t')) \<longrightarrow>
      (\<exists>root queue time t1 t2 q2.
          Test_init cmr m ternary ps st tlimit t0 = Inr (root, queue, time, t1)
        \<and> regularity_loop cmr ps queue t1 = Some (Inr t2)
        \<and> queues t2 queue = Some q2
        \<and> (head q2 = None \<or> (\<not> completeTree ps \<and> foundIrregularity q2))))
 \<and> (CMRregularityCompleteDecomposition cmr decp ps st tlimit u0 = Some (Inr u') \<longrightarrow>
      (\<exists>root queue time u1 u2 q2.
          Complete_init cmr decp ps st tlimit u0 = Some (Inr (root, queue, time, u1))
        \<and> regularity_loop cmr ps queue u1 = Some (Inr u2)
        \<and> queues u2 queue = Some q2
        \<and> (head q2 = None \<or> (\<not> completeTree ps \<and> foundIrregularity q2))))"
proof (intro conjI impI)
  assume "queues s queue = Some q" and "head q = None \<or> (\<not> completeTree ps \<and> foundIrregularity q)"
  then show "regularity_loop cmr ps queue s = Some (Inr s)"
    by (subst regularity_loop.simps) (auto simp: CMRregularityQueueEmpty_def)
next
  assume a: "queues s queue = Some q" "head q \<noteq> None" "completeTree ps \<or> \<not> foundIrregularity q"
  then show step: "regularity_loop cmr ps queue s =
        (case CMRregularityQueueRemove queue s of
           Inl e \<Rightarrow> Some (Inl e)
         | Inr (task, s1) \<Rightarrow>
             (case CMRregularityTaskRun cmr task queue s1 of
                Inl e \<Rightarrow> Some (Inl e)
              | Inr s2 \<Rightarrow> regularity_loop cmr ps queue s2))"
    by (subst regularity_loop.simps) (simp add: CMRregularityQueueEmpty_def)
  assume b: "CMRregularityQueueRemove queue s = Inr (task, s1)"
    "CMRregularityTaskRun cmr task queue s1 = Inr s2"
    "queues s2 queue = Some q2" "\<not> completeTree ps" "foundIrregularity q2"
  have "regularity_loop cmr ps queue s2 = Some (Inr s2)"
    using b by (subst regularity_loop.simps) (simp add: CMRregularityQueueEmpty_def)
  with step b show "regularity_loop cmr ps queue s = Some (Inr s2)" by simp
next
  assume "CMRregularityTest cmr m ternary pisRegular pdec pminor ps st tlimit t0 = Some (Inr (out, t'))"
  from Test_result[OF this] obtain root queue time t1 t2 where
    i: "Test_init cmr m ternary ps st tlimit t0 = Inr (root, queue, time, t1)"
    and l: "regularity_loop cmr ps queue t1 = Some (Inr t2)" by blast
  from regularity_loop_exit[OF l] i l
  show "\<exists>root queue time t1 t2 q2.
          Test_init cmr m ternary ps st tlimit t0 = Inr (root, queue, time, t1)
        \<and> regularity_loop cmr ps queue t1 = Some (Inr t2)
        \<and> queues t2 queue = Some q2
        \<and> (head q2 = None \<or> (\<not> completeTree ps \<and> foundIrregularity q2))" by blast
next
  assume "CMRregularityCompleteDecomposition cmr decp ps st tlimit u0 = Some (Inr u')"
  from Complete_result[OF this] obtain root queue time u1 u2 where
    i: "Complete_init cmr decp ps st tlimit u0 = Some (Inr (root, queue, time, u1))"
    and l: "regularity_loop cmr ps queue u1 = Some (Inr u2)" by blast
  from regularity_loop_exit[OF l] i l
  show "\<exists>root queue time u1 u2 q2.
          Complete_init cmr decp ps st tlimit u0 = Some (Inr (root, queue, time, u1))
        \<and> regularity_loop cmr ps queue u1 = Some (Inr u2)
        \<and> queues u2 queue = Some q2
        \<and> (head q2 = None \<or> (\<not> completeTree ps \<and> foundIrregularity q2))" by blast
qed

theorem driver_loop_condition_witness:
  "regularity_loop demo_cmr demo_params 0
      (demo_queue\<lparr>queues := [0 \<mapsto> \<lparr>head = Some 7, foundIrregularity = True\<rparr>]\<rparr>)
     = Some (Inr (demo_queue\<lparr>queues := [0 \<mapsto> \<lparr>head = Some 7, foundIrregularity = True\<rparr>]\<rparr>))
   \<and> regularity_loop demo_cmr demo_params 0 demo_queue = Some (Inl (Error TIME_LIMIT))
   \<and> (\<exists>root queue time t1 t2 q2.
          Test_init demo_cmr \<lparr>numRows = 3, numColumns = 3\<rparr> False demo_params None 0 empty_state
            = Inr (root, queue, time, t1)
        \<and> regularity_loop demo_cmr demo_params queue t1 = Some (Inr t2)
        \<and> queues t2 queue = Some q2
        \<and> (head q2 = None \<or> (\<not> completeTree demo_params \<and> foundIrregularity q2)))
   \<and> (\<exists>root queue time u1 u2 q2.
          Complete_init demo_cmr 1 demo_params None 0 demo_tree = Some (Inr (root, queue, time, u1))
        \<and> regularity_loop demo_cmr demo_params queue u1 = Some (Inr u2)
        \<and> queues u2 queue = Some q2
        \<and> (head q2 = None \<or> (\<not> completeTree demo_params \<and> foundIrregularity q2)))"
proof (intro conjI)
  let ?q = "\<lparr>head = Some 7, foundIrregularity = True\<rparr>"
  let ?s = "demo_queue\<lparr>queues := [0 \<mapsto> ?q]\<rparr>"
  have h1: "queues ?s 0 = Some ?q" by simp
  have h2: "head ?q = None \<or> (\<not> completeTree demo_params \<and> foundIrregularity ?q)"
    by (simp add: demo_params_def)
  show "regularity_loop demo_cmr demo_params 0 ?s = Some (Inr ?s)"
    by (rule driver_loop_condition[THEN conjunct1, rule_format, OF h1 h2])
next
  let ?q = "\<lparr>head = Some 7, foundIrregularity = False\<rparr>"
  have h1: "queues demo_queue 0 = Some ?q" by (simp add: demo_queue_def)
  have h2: "head ?q \<noteq> None" by simp
  have h3: "completeTree demo_params \<or> \<not> foundIrregularity ?q" by simp
  have "regularity_loop demo_cmr demo_params 0 demo_queue =
        (case CMRregularityQueueRemove 0 demo_queue of
           Inl e \<Rightarrow> Some (Inl e)
         | Inr (task, s1) \<Rightarrow>
             (case CMRregularityTaskRun demo_cmr task 0 s1 of
                Inl e \<Rightarrow> Some (Inl e)
              | Inr s2 \<Rightarrow> regularity_loop demo_cmr demo_params 0 s2))"
    by (rule driver_loop_condition[THEN conjunct2, THEN conjunct1, rule_format, OF h1 h2 h3])
  also have "\<dots> = Some (Inl (Error TIME_LIMIT))"
    by (simp add: demo_defs driver_defs)
  finally show "regularity_loop demo_cmr demo_params 0 demo_queue = Some (Inl (Error TIME_LIMIT))" .
next
  show "\<exists>root queue time t1 t2 q2.
          Test_init demo_cmr \<lparr>numRows = 3, numColumns = 3\<rparr> False demo_params None 0 empty_state
            = Inr (root, queue, time, t1)
        \<and> regularity_loop demo_cmr demo_params queue t1 = Some (Inr t2)
        \<and> queues t2 queue = Some q2
        \<and> (head q2 = None \<or> (\<not> completeTree demo_params \<and> foundIrregularity q2))"
    by (rule driver_loop_condition[THEN conjunct2, THEN conjunct2, THEN conjunct2, THEN conjunct1,
          rule_format, OF test_demo])
next
  show "\<exists>root queue time u1 u2 q2.
          Complete_init demo_cmr 1 demo_params None 0 demo_tree = Some (Inr (root, queue, time, u1))
        \<and> regularity_loop demo_cmr demo_params queue u1 = Some (Inr u2)
        \<and> queues u2 queue = Some q2
        \<and> (head q2 = None \<or> (\<not> completeTree demo_params \<and> foundIrregularity q2))"
    by (rule driver_loop_condition[THEN conjunct2, THEN conjunct2, THEN conjunct2, THEN conjunct2,
          rule_format, OF complete_demo])
qed

text \<open>
  Claim C3. When \<^verbatim>\<open>CMRregularityTest\<close> returns \<^verbatim>\<open>CMR_OKAY\<close>: the value stored through
  \<^verbatim>\<open>pisRegular\<close>, if that pointer is not \<^verbatim>\<open>NULL\<close>, is true exactly when the regularity of
  the root is positive in the memory that the attribute finaliser returned; if \<^verbatim>\<open>pdec\<close>
  is not \<^verbatim>\<open>NULL\<close> the root is stored through it and the nodes are as the finaliser left
  them; otherwise nothing is stored and \<^verbatim>\<open>CMRmatroiddecFree\<close> has been applied to the root.
\<close>

theorem test_result_and_ownership:
  assumes "CMRregularityTest cmr m ternary pisRegular pdec pminor ps st tlimit s = Some (Inr (out, s'))"
  shows "\<exists>root queue time s1 s2 sq s3 d.
           Test_init cmr m ternary ps st tlimit s = Inr (root, queue, time, s1)
         \<and> regularity_loop cmr ps queue s1 = Some (Inr s2)
         \<and> CMRregularityQueueFree (Some queue) s2 = Some (Inr sq)
         \<and> CMRmatroiddecSetAttributes cmr root sq = Inr s3
         \<and> decs s3 root = Some d
         \<and> isRegular out = (if pisRegular then Some (0 < regularity d) else None)
         \<and> pdec_out out = (if pdec then Some root else None)
         \<and> (if pdec then decs s' = decs s3
             else (\<exists>s4. CMRmatroiddecFree cmr (LocalPointer root) s3 = Inr s4 \<and> decs s' = decs s4))"
proof -
  from Test_result[OF assms] obtain root queue time s1 s2 s3 where
    i: "Test_init cmr m ternary ps st tlimit s = Inr (root, queue, time, s1)"
    and l: "regularity_loop cmr ps queue s1 = Some (Inr s2)"
    and f: "finalise cmr root queue s2 = Some (Inr s3)"
    and out: "Test_output cmr root pisRegular pdec st time s3 = Inr (out, s')" by blast
  from finalise_result[OF f] obtain sq d where
    q: "CMRregularityQueueFree (Some queue) s2 = Some (Inr sq)"
    and a: "CMRmatroiddecSetAttributes cmr root sq = Inr s3"
    and d: "decs s3 root = Some d" by blast
  from Test_output_result[OF out d] i l q a d show ?thesis by blast
qed

theorem test_result_and_ownership_witness:
  "(\<exists>root queue time s1 s2 sq s3 d.
      Test_init demo_cmr \<lparr>numRows = 3, numColumns = 3\<rparr> False demo_params None 0 empty_state
        = Inr (root, queue, time, s1)
    \<and> regularity_loop demo_cmr demo_params queue s1 = Some (Inr s2)
    \<and> CMRregularityQueueFree (Some queue) s2 = Some (Inr sq)
    \<and> CMRmatroiddecSetAttributes demo_cmr root sq = Inr s3
    \<and> decs s3 root = Some d
    \<and> Some False = Some (0 < regularity d)
    \<and> Some 0 = Some root
    \<and> decs demo_tested = decs s3)
   \<and> (\<exists>root queue time s1 s2 sq s3 d.
      Test_init demo_cmr \<lparr>numRows = 3, numColumns = 3\<rparr> False demo_params None 0 empty_state
        = Inr (root, queue, time, s1)
    \<and> regularity_loop demo_cmr demo_params queue s1 = Some (Inr s2)
    \<and> CMRregularityQueueFree (Some queue) s2 = Some (Inr sq)
    \<and> CMRmatroiddecSetAttributes demo_cmr root sq = Inr s3
    \<and> decs s3 root = Some d
    \<and> (\<exists>s4. CMRmatroiddecFree demo_cmr (LocalPointer root) s3 = Inr s4
           \<and> Map.empty = decs s4))"
proof (rule conjI)
  from test_result_and_ownership[OF test_demo]
  obtain root queue time s1 s2 sq s3 d where
    "Test_init demo_cmr \<lparr>numRows = 3, numColumns = 3\<rparr> False demo_params None 0 empty_state
        = Inr (root, queue, time, s1)"
    "regularity_loop demo_cmr demo_params queue s1 = Some (Inr s2)"
    "CMRregularityQueueFree (Some queue) s2 = Some (Inr sq)"
    "CMRmatroiddecSetAttributes demo_cmr root sq = Inr s3"
    "decs s3 root = Some d"
    "Some False = Some (0 < regularity d)"
    "Some 0 = Some root"
    "decs demo_tested = decs s3"
    by (elim exE conjE) simp
  then show "\<exists>root queue time s1 s2 sq s3 d.
      Test_init demo_cmr \<lparr>numRows = 3, numColumns = 3\<rparr> False demo_params None 0 empty_state
        = Inr (root, queue, time, s1)
    \<and> regularity_loop demo_cmr demo_params queue s1 = Some (Inr s2)
    \<and> CMRregularityQueueFree (Some queue) s2 = Some (Inr sq)
    \<and> CMRmatroiddecSetAttributes demo_cmr root sq = Inr s3
    \<and> decs s3 root = Some d
    \<and> Some False = Some (0 < regularity d)
    \<and> Some 0 = Some root
    \<and> decs demo_tested = decs s3"
    by (intro exI conjI) assumption+
next
  from test_result_and_ownership[OF test_demo_free]
  obtain root queue time s1 s2 sq s3 d s4 where
    "Test_init demo_cmr \<lparr>numRows = 3, numColumns = 3\<rparr> False demo_params None 0 empty_state
        = Inr (root, queue, time, s1)"
    "regularity_loop demo_cmr demo_params queue s1 = Some (Inr s2)"
    "CMRregularityQueueFree (Some queue) s2 = Some (Inr sq)"
    "CMRmatroiddecSetAttributes demo_cmr root sq = Inr s3"
    "decs s3 root = Some d"
    "CMRmatroiddecFree demo_cmr (LocalPointer root) s3 = Inr s4"
    "Map.empty = decs s4"
    by (elim exE conjE) (auto simp: empty_state_def)
  then show "\<exists>root queue time s1 s2 sq s3 d.
      Test_init demo_cmr \<lparr>numRows = 3, numColumns = 3\<rparr> False demo_params None 0 empty_state
        = Inr (root, queue, time, s1)
    \<and> regularity_loop demo_cmr demo_params queue s1 = Some (Inr s2)
    \<and> CMRregularityQueueFree (Some queue) s2 = Some (Inr sq)
    \<and> CMRmatroiddecSetAttributes demo_cmr root sq = Inr s3
    \<and> decs s3 root = Some d
    \<and> (\<exists>s4. CMRmatroiddecFree demo_cmr (LocalPointer root) s3 = Inr s4
           \<and> Map.empty = decs s4)"
    by (intro exI conjI) assumption+
qed

text \<open>
  Claim C4. When \<^verbatim>\<open>CMRregularityTest\<close> returns \<^verbatim>\<open>CMR_OKAY\<close>, the regularity of the root, in the
  memory after the queue was freed and the attribute finaliser has run, is not zero: it
  is positive (regular) or negative (irregular). When
  \<^verbatim>\<open>CMRregularityCompleteDecomposition\<close> returns \<^verbatim>\<open>CMR_OKAY\<close>, the same holds in the returned
  memory for the root of the tree that contains the given node. (The functions assert
  it: a run in which the finaliser leaves the tag unset does not return.)
\<close>

theorem root_regularity_is_set:
  "(CMRregularityTest cmr m ternary pisRegular pdec pminor ps st tlimit s = Some (Inr (out, s')) \<longrightarrow>
      (\<exists>root queue time s1 s2 s3 d.
          Test_init cmr m ternary ps st tlimit s = Inr (root, queue, time, s1)
        \<and> regularity_loop cmr ps queue s1 = Some (Inr s2)
        \<and> finalise cmr root queue s2 = Some (Inr s3)
        \<and> decs s3 root = Some d
        \<and> regularity d \<noteq> 0 \<and> (0 < regularity d \<or> regularity d < 0)
        \<and> (pdec \<longrightarrow> decs s' root = Some d)))
 \<and> (CMRregularityCompleteDecomposition cmr decp ps st tlimit u = Some (Inr u') \<longrightarrow>
      (\<exists>root d.
          find_root u decp = Some (Inr root)
        \<and> decs u' root = Some d
        \<and> regularity d \<noteq> 0 \<and> (0 < regularity d \<or> regularity d < 0)))"
proof (intro conjI impI)
  assume "CMRregularityTest cmr m ternary pisRegular pdec pminor ps st tlimit s = Some (Inr (out, s'))"
  from Test_result[OF this] obtain root queue time s1 s2 s3 where
    i: "Test_init cmr m ternary ps st tlimit s = Inr (root, queue, time, s1)"
    and l: "regularity_loop cmr ps queue s1 = Some (Inr s2)"
    and f: "finalise cmr root queue s2 = Some (Inr s3)"
    and out: "Test_output cmr root pisRegular pdec st time s3 = Inr (out, s')" by blast
  from finalise_result[OF f] obtain d where
    d: "decs s3 root = Some d" and r: "regularity d \<noteq> 0" by blast
  from Test_output_result[OF out d] have "pdec \<longrightarrow> decs s' root = Some d"
    using d by (auto split: if_splits)
  moreover from r have "0 < regularity d \<or> regularity d < 0" by arith
  ultimately show "\<exists>root queue time s1 s2 s3 d.
          Test_init cmr m ternary ps st tlimit s = Inr (root, queue, time, s1)
        \<and> regularity_loop cmr ps queue s1 = Some (Inr s2)
        \<and> finalise cmr root queue s2 = Some (Inr s3)
        \<and> decs s3 root = Some d
        \<and> regularity d \<noteq> 0 \<and> (0 < regularity d \<or> regularity d < 0)
        \<and> (pdec \<longrightarrow> decs s' root = Some d)"
    using i l f d r by blast
next
  assume "CMRregularityCompleteDecomposition cmr decp ps st tlimit u = Some (Inr u')"
  from Complete_result[OF this] obtain root queue time s1 s2 s3 where
    i: "Complete_init cmr decp ps st tlimit u = Some (Inr (root, queue, time, s1))"
    and f: "finalise cmr root queue s2 = Some (Inr s3)"
    and t: "stats_time cmr st time s3 = Inr u'" by blast
  from Complete_init_result[OF i] have fr: "find_root u decp = Some (Inr root)" by blast
  from finalise_result[OF f] obtain d where
    d: "decs s3 root = Some d" and r: "regularity d \<noteq> 0" by blast
  from stats_time_decs[OF t] d have "decs u' root = Some d" by simp
  moreover from r have "0 < regularity d \<or> regularity d < 0" by arith
  ultimately show "\<exists>root d.
          find_root u decp = Some (Inr root)
        \<and> decs u' root = Some d
        \<and> regularity d \<noteq> 0 \<and> (0 < regularity d \<or> regularity d < 0)"
    using fr r by blast
qed

theorem root_regularity_is_set_witness:
  "(\<exists>root queue time s1 s2 s3 d.
          Test_init demo_cmr \<lparr>numRows = 3, numColumns = 3\<rparr> False demo_params None 0 empty_state
            = Inr (root, queue, time, s1)
        \<and> regularity_loop demo_cmr demo_params queue s1 = Some (Inr s2)
        \<and> finalise demo_cmr root queue s2 = Some (Inr s3)
        \<and> decs s3 root = Some d
        \<and> regularity d \<noteq> 0 \<and> (0 < regularity d \<or> regularity d < 0))
 \<and> (\<exists>root d.
          find_root demo_tree 1 = Some (Inr root)
        \<and> decs demo_completed root = Some d
        \<and> regularity d \<noteq> 0 \<and> (0 < regularity d \<or> regularity d < 0))"
proof (rule conjI)
  from root_regularity_is_set[THEN conjunct1, rule_format, OF test_demo]
  show "\<exists>root queue time s1 s2 s3 d.
          Test_init demo_cmr \<lparr>numRows = 3, numColumns = 3\<rparr> False demo_params None 0 empty_state
            = Inr (root, queue, time, s1)
        \<and> regularity_loop demo_cmr demo_params queue s1 = Some (Inr s2)
        \<and> finalise demo_cmr root queue s2 = Some (Inr s3)
        \<and> decs s3 root = Some d
        \<and> regularity d \<noteq> 0 \<and> (0 < regularity d \<or> regularity d < 0)"
    by (elim exE conjE) (intro exI conjI, assumption+)
next
  show "\<exists>root d.
          find_root demo_tree 1 = Some (Inr root)
        \<and> decs demo_completed root = Some d
        \<and> regularity d \<noteq> 0 \<and> (0 < regularity d \<or> regularity d < 0)"
    by (rule root_regularity_is_set[THEN conjunct2, rule_format, OF complete_demo])
qed

text \<open>
  Claim C5. The queue is last-in first-out. Adding a task to a queue makes it the head, so the
  queue is not empty afterwards, and puts it in front of the tasks already queued;
  removing from that queue at once returns the very task, with its successor link
  cleared, and the old head is the head again. Removing from any queue that is not
  empty returns its head with the successor link cleared and leaves the rest of the
  chain. Removing from an empty queue has no result.
\<close>

theorem queue_lifo:
  "(queues s queue = Some q \<longrightarrow> tasks s task = Some t \<longrightarrow>
      (\<exists>s1 q1. CMRregularityQueueAdd queue task s = Inr s1
         \<and> queues s1 queue = Some q1 \<and> head q1 = Some task
         \<and> CMRregularityQueueEmpty queue s1 = Inr False
         \<and> (\<forall>n ps. chain n (tasks s) (head q) = Some ps \<longrightarrow> task \<notin> set ps \<longrightarrow>
               chain (Suc n) (tasks s1) (head q1) = Some (task # ps))
         \<and> (\<exists>s2 t2 q2. CMRregularityQueueRemove queue s1 = Inr (task, s2)
               \<and> tasks s2 task = Some t2 \<and> task_next t2 = None
               \<and> queues s2 queue = Some q2 \<and> head q2 = head q)))
   \<and> (queues s queue = Some q \<longrightarrow> head q = Some h \<longrightarrow> tasks s h = Some th \<longrightarrow>
      (\<exists>s' t' q'. CMRregularityQueueRemove queue s = Inr (h, s')
         \<and> tasks s' h = Some t' \<and> task_next t' = None
         \<and> queues s' queue = Some q' \<and> head q' = task_next th
         \<and> (\<forall>n ps. chain n (tasks s) (head q) = Some ps \<longrightarrow>
               (\<exists>rest. ps = h # rest \<and> chain n (tasks s') (head q') = Some rest))))
   \<and> (queues s queue = Some q \<longrightarrow> head q = None \<longrightarrow>
        CMRregularityQueueRemove queue s = Inl InvalidPointer
        \<and> CMRregularityQueueEmpty queue s = Inr True)"
proof (intro conjI impI)
  assume q: "queues s queue = Some q" and t: "tasks s task = Some t"
  show "\<exists>s1 q1. CMRregularityQueueAdd queue task s = Inr s1
         \<and> queues s1 queue = Some q1 \<and> head q1 = Some task
         \<and> CMRregularityQueueEmpty queue s1 = Inr False
         \<and> (\<forall>n ps. chain n (tasks s) (head q) = Some ps \<longrightarrow> task \<notin> set ps \<longrightarrow>
               chain (Suc n) (tasks s1) (head q1) = Some (task # ps))
         \<and> (\<exists>s2 t2 q2. CMRregularityQueueRemove queue s1 = Inr (task, s2)
               \<and> tasks s2 task = Some t2 \<and> task_next t2 = None
               \<and> queues s2 queue = Some q2 \<and> head q2 = head q)"
    using q t push_chain[of _ "tasks s" "head q" _ task t]
    by (simp add: CMRregularityQueueAdd_def CMRregularityQueueEmpty_def
        CMRregularityQueueRemove_def)
next
  assume q: "queues s queue = Some q" and h: "head q = Some h" and th: "tasks s h = Some th"
  show "\<exists>s' t' q'. CMRregularityQueueRemove queue s = Inr (h, s')
         \<and> tasks s' h = Some t' \<and> task_next t' = None
         \<and> queues s' queue = Some q' \<and> head q' = task_next th
         \<and> (\<forall>n ps. chain n (tasks s) (head q) = Some ps \<longrightarrow>
               (\<exists>rest. ps = h # rest \<and> chain n (tasks s') (head q') = Some rest))"
    using q h th pop_chain[of _ "tasks s" h _ th]
    by (simp add: CMRregularityQueueRemove_def)
next
  assume "queues s queue = Some q" and "head q = None"
  then show "CMRregularityQueueRemove queue s = Inl InvalidPointer"
    by (simp add: CMRregularityQueueRemove_def)
next
  assume "queues s queue = Some q" and "head q = None"
  then show "CMRregularityQueueEmpty queue s = Inr True"
    by (simp add: CMRregularityQueueEmpty_def)
qed

theorem queue_lifo_witness:
  "(\<exists>s1 q1. CMRregularityQueueAdd 0 8 demo_queue = Inr s1
       \<and> queues s1 0 = Some q1 \<and> head q1 = Some 8
       \<and> CMRregularityQueueEmpty 0 s1 = Inr False
       \<and> chain 2 (tasks s1) (head q1) = Some [8, 7]
       \<and> (\<exists>s2 t2 q2. CMRregularityQueueRemove 0 s1 = Inr (8, s2)
             \<and> tasks s2 8 = Some t2 \<and> task_next t2 = None
             \<and> queues s2 0 = Some q2 \<and> head q2 = Some 7))
   \<and> (\<exists>s' t' q'. CMRregularityQueueRemove 0 demo_queue = Inr (7, s')
         \<and> tasks s' 7 = Some t' \<and> task_next t' = None
         \<and> queues s' 0 = Some q' \<and> head q' = None
         \<and> chain 1 (tasks s') (head q') = Some []
         \<and> CMRregularityQueueRemove 0 s' = Inl InvalidPointer
         \<and> CMRregularityQueueEmpty 0 s' = Inr True)"
proof -
  let ?t = "\<lparr>dec = 0, task_next = None, params = demo_params, stats = None,
              startClock = 0, timeLimit = 0\<rparr>"
  let ?q = "\<lparr>head = Some 7, foundIrregularity = False\<rparr>"
  have q: "queues demo_queue 0 = Some ?q" by (simp add: demo_queue_def)
  have t8: "tasks demo_queue 8 = Some ?t" by (simp add: demo_queue_def)
  have t7: "tasks demo_queue 7 = Some ?t" by (simp add: demo_queue_def)
  have h: "head ?q = Some 7" by simp
  have c: "chain 1 (tasks demo_queue) (head ?q) = Some [7]" by (simp add: demo_queue_def)
  note push = queue_lifo[THEN conjunct1, rule_format, OF q t8]
  note pop = queue_lifo[THEN conjunct2, THEN conjunct1, rule_format, OF q h t7]
  from push obtain s1 q1 where
    a: "CMRregularityQueueAdd 0 8 demo_queue = Inr s1" "queues s1 0 = Some q1" "head q1 = Some 8"
       "CMRregularityQueueEmpty 0 s1 = Inr False"
    and ch: "\<forall>n ps. chain n (tasks demo_queue) (head ?q) = Some ps \<longrightarrow> 8 \<notin> set ps \<longrightarrow>
               chain (Suc n) (tasks s1) (head q1) = Some (8 # ps)"
    and r: "\<exists>s2 t2 q2. CMRregularityQueueRemove 0 s1 = Inr (8, s2)
             \<and> tasks s2 8 = Some t2 \<and> task_next t2 = None
             \<and> queues s2 0 = Some q2 \<and> head q2 = head ?q"
    by blast
  from ch c have "chain (Suc 1) (tasks s1) (head q1) = Some [8, 7]" by simp
  then have c2: "chain 2 (tasks s1) (head q1) = Some [8, 7]" by (simp add: numeral_2_eq_2)
  from pop obtain s' t' q' where
    b: "CMRregularityQueueRemove 0 demo_queue = Inr (7, s')" "tasks s' 7 = Some t'"
       "task_next t' = None" "queues s' 0 = Some q'" "head q' = task_next ?t"
    and ch': "\<forall>n ps. chain n (tasks demo_queue) (head ?q) = Some ps \<longrightarrow>
               (\<exists>rest. ps = 7 # rest \<and> chain n (tasks s') (head q') = Some rest)"
    by blast
  from ch'[rule_format, OF c] have c3: "chain 1 (tasks s') (head q') = Some []" by auto
  from b have hq: "head q' = None" by simp
  note none = queue_lifo[THEN conjunct2, THEN conjunct2, rule_format, OF b(4) hq]
  from a c2 r b(1-4) hq c3 none show ?thesis by simp
qed

text \<open>
  Claim C6. When \<^verbatim>\<open>CMRregularityCompleteDecomposition\<close> returns \<^verbatim>\<open>CMR_OKAY\<close>: the root was found
  by following the parent links from the given node to a node without a parent;
  \<^verbatim>\<open>CMRmatroiddecFree\<close> was applied to the children of the given node, index by index, up to
  the number of children; then the type of the given node was set to unknown, which is
  the only change the function itself makes to the nodes (so every other node that
  freeing the children leaves alone is as it was); the loop started with a new queue
  that holds exactly one task, for the given node; and after the loop the queue was
  freed and the attribute finaliser was applied to the root.
\<close>

theorem complete_decomposition_steps:
  assumes "CMRregularityCompleteDecomposition cmr decp ps st tlimit s = Some (Inr s')"
  shows "\<exists>root queue time s0 sf c' d2 s1 s2 sq s3.
      find_root s decp = Some (Inr root)
    \<and> (parent_link s)\<^sup>*\<^sup>* decp root \<and> (\<exists>d. decs s root = Some d \<and> parent d = None)
    \<and> stats_count st s = Inr s0 \<and> decs s0 = decs s
    \<and> free_children cmr decp 0 s0 = Some (Inr sf)
    \<and> frees cmr decp 0 s0 c' sf \<and> decs sf decp = Some d2 \<and> length (children d2) \<le> c'
    \<and> Complete_init cmr decp ps st tlimit s = Some (Inr (root, queue, time, s1))
    \<and> decs s1 = (decs sf)(decp \<mapsto> d2\<lparr>dec_type := TYPE_UNKNOWN\<rparr>)
    \<and> (\<forall>p. p \<noteq> decp \<longrightarrow>
          (\<forall>k x y. CMRmatroiddecFree cmr (ChildPointer decp k) x = Inr y \<longrightarrow> decs y p = decs x p) \<longrightarrow>
          decs s1 p = decs s p)
    \<and> (\<exists>task t q. queues s1 queue = Some q \<and> head q = Some task \<and> \<not> foundIrregularity q
          \<and> tasks s1 task = Some t \<and> dec t = decp \<and> task_next t = None \<and> params t = ps
          \<and> chain 1 (tasks s1) (head q) = Some [task])
    \<and> regularity_loop cmr ps queue s1 = Some (Inr s2)
    \<and> CMRregularityQueueFree (Some queue) s2 = Some (Inr sq)
    \<and> CMRmatroiddecSetAttributes cmr root sq = Inr s3
    \<and> decs s' = decs s3"
proof -
  from Complete_result[OF assms] obtain root queue time s1 s2 s3 where
    i: "Complete_init cmr decp ps st tlimit s = Some (Inr (root, queue, time, s1))"
    and l: "regularity_loop cmr ps queue s1 = Some (Inr s2)"
    and f: "finalise cmr root queue s2 = Some (Inr s3)"
    and t: "stats_time cmr st time s3 = Inr s'" by blast
  from Complete_init_result[OF i] obtain s0 sf d2 where
    fr: "find_root s decp = Some (Inr root)"
    and sc: "stats_count st s = Inr s0"
    and fc: "free_children cmr decp 0 s0 = Some (Inr sf)"
    and d2: "decs sf decp = Some d2"
    and sq: "seed_queue cmr decp ps st time tlimit
           (sf\<lparr>decs := (decs sf)(decp \<mapsto> d2\<lparr>dec_type := TYPE_UNKNOWN\<rparr>)\<rparr>) = Inr (queue, s1)"
    by blast
  from free_children_result[OF fc] d2 obtain c' where
    fs: "frees cmr decp 0 s0 c' sf" and len: "length (children d2) \<le> c'" by auto
  note seed = seed_queue_result[OF sq]
  from seed have s1: "decs s1 = (decs sf)(decp \<mapsto> d2\<lparr>dec_type := TYPE_UNKNOWN\<rparr>)" by simp
  have s0: "decs s0 = decs s" by (rule stats_count_decs[OF sc])
  have frame: "\<forall>p. p \<noteq> decp \<longrightarrow>
          (\<forall>k x y. CMRmatroiddecFree cmr (ChildPointer decp k) x = Inr y \<longrightarrow> decs y p = decs x p) \<longrightarrow>
          decs s1 p = decs s p"
  proof (intro allI impI)
    fix p assume p: "p \<noteq> decp"
      and h: "\<forall>k x y. CMRmatroiddecFree cmr (ChildPointer decp k) x = Inr y \<longrightarrow> decs y p = decs x p"
    from frees_frame[OF fs, of p] h have "decs sf p = decs s0 p" by blast
    with s1 s0 p show "decs s1 p = decs s p" by simp
  qed
  from finalise_result[OF f] obtain sq' where
    q: "CMRregularityQueueFree (Some queue) s2 = Some (Inr sq')"
    and a: "CMRmatroiddecSetAttributes cmr root sq' = Inr s3" by blast
  from seed have task: "\<exists>task t q. queues s1 queue = Some q \<and> head q = Some task \<and> \<not> foundIrregularity q
          \<and> tasks s1 task = Some t \<and> dec t = decp \<and> task_next t = None \<and> params t = ps
          \<and> chain 1 (tasks s1) (head q) = Some [task]" by blast
  from find_root_result[OF fr] fr sc s0 fc fs d2 len i s1 frame task l q a stats_time_decs[OF t]
  show ?thesis by blast
qed

theorem complete_decomposition_steps_witness:
  "\<exists>u'. CMRregularityCompleteDecomposition demo_cmr 1 demo_params None 0 demo_tree = Some (Inr u')
    \<and> (\<exists>root queue time s0 sf c' d2 s1 s2 sq s3.
      find_root demo_tree 1 = Some (Inr root)
    \<and> (parent_link demo_tree)\<^sup>*\<^sup>* 1 root \<and> (\<exists>d. decs demo_tree root = Some d \<and> parent d = None)
    \<and> stats_count None demo_tree = Inr s0 \<and> decs s0 = decs demo_tree
    \<and> free_children demo_cmr 1 0 s0 = Some (Inr sf)
    \<and> frees demo_cmr 1 0 s0 c' sf \<and> decs sf 1 = Some d2 \<and> length (children d2) \<le> c'
    \<and> Complete_init demo_cmr 1 demo_params None 0 demo_tree = Some (Inr (root, queue, time, s1))
    \<and> decs s1 = (decs sf)(1 \<mapsto> d2\<lparr>dec_type := TYPE_UNKNOWN\<rparr>)
    \<and> (\<exists>task t q. queues s1 queue = Some q \<and> head q = Some task \<and> \<not> foundIrregularity q
          \<and> tasks s1 task = Some t \<and> dec t = 1 \<and> task_next t = None \<and> params t = demo_params
          \<and> chain 1 (tasks s1) (head q) = Some [task])
    \<and> regularity_loop demo_cmr demo_params queue s1 = Some (Inr s2)
    \<and> CMRregularityQueueFree (Some queue) s2 = Some (Inr sq)
    \<and> CMRmatroiddecSetAttributes demo_cmr root sq = Inr s3
    \<and> decs u' = decs s3)"
proof (rule exI[of _ demo_completed], rule conjI)
  show "CMRregularityCompleteDecomposition demo_cmr 1 demo_params None 0 demo_tree =
     Some (Inr demo_completed)"
    by (rule complete_demo)
  from complete_decomposition_steps[OF complete_demo]
  show "\<exists>root queue time s0 sf c' d2 s1 s2 sq s3.
      find_root demo_tree 1 = Some (Inr root)
    \<and> (parent_link demo_tree)\<^sup>*\<^sup>* 1 root \<and> (\<exists>d. decs demo_tree root = Some d \<and> parent d = None)
    \<and> stats_count None demo_tree = Inr s0 \<and> decs s0 = decs demo_tree
    \<and> free_children demo_cmr 1 0 s0 = Some (Inr sf)
    \<and> frees demo_cmr 1 0 s0 c' sf \<and> decs sf 1 = Some d2 \<and> length (children d2) \<le> c'
    \<and> Complete_init demo_cmr 1 demo_params None 0 demo_tree = Some (Inr (root, queue, time, s1))
    \<and> decs s1 = (decs sf)(1 \<mapsto> d2\<lparr>dec_type := TYPE_UNKNOWN\<rparr>)
    \<and> (\<exists>task t q. queues s1 queue = Some q \<and> head q = Some task \<and> \<not> foundIrregularity q
          \<and> tasks s1 task = Some t \<and> dec t = 1 \<and> task_next t = None \<and> params t = demo_params
          \<and> chain 1 (tasks s1) (head q) = Some [task])
    \<and> regularity_loop demo_cmr demo_params queue s1 = Some (Inr s2)
    \<and> CMRregularityQueueFree (Some queue) s2 = Some (Inr sq)
    \<and> CMRmatroiddecSetAttributes demo_cmr root sq = Inr s3
    \<and> decs demo_completed = decs s3"
    by (elim exE conjE) (intro exI conjI, assumption+)
qed

section \<open>Properties of the wheel-minor search\<close>

lemma swap_entries_nth:
  "i < length xs \<Longrightarrow> j < length xs \<Longrightarrow>
     swap_entries i j xs ! k = xs ! (if k = i then j else if k = j then i else k)"
  by (auto simp: swap_entries_def nth_list_update)

lemma swap_entries_nth1: "i < length xs \<Longrightarrow> j < length xs \<Longrightarrow> swap_entries i j xs ! i = xs ! j"
  by (auto simp: swap_entries_def nth_list_update)

lemma swap_entries_nth2: "i < length xs \<Longrightarrow> j < length xs \<Longrightarrow> swap_entries i j xs ! j = xs ! i"
  by (auto simp: swap_entries_def nth_list_update)

lemma swap_entries_nth3: "k \<noteq> i \<Longrightarrow> k \<noteq> j \<Longrightarrow> swap_entries i j xs ! k = xs ! k"
  by (auto simp: swap_entries_def)

lemma swap_entries_length [simp]: "length (swap_entries i j xs) = length xs"
  by (simp add: swap_entries_def)


lemma order3_nth:
  assumes "z \<noteq> o'" "z < p" "o' < p" "p < length xs"
  shows "order3 xs z o' p ! 0 = xs ! z \<and> order3 xs z o' p ! 1 = xs ! o' \<and> order3 xs z o' p ! 2 = xs ! p"
proof -
  have len: "z < length xs" "o' < length xs" "0 < length xs" "1 < length xs" "2 < length xs"
    using assms by auto
  have p2: "2 \<le> p" using assms by auto
  consider "z < o'" | "o' < z" using assms by fastforce
  then show ?thesis
  proof cases
    case 1
    then have o1: "1 \<le> o'" by simp
    have eq: "order3 xs z o' p = swap_entries 2 p (swap_entries 1 o' (swap_entries 0 z xs))"
      using 1 assms by (simp add: order3_def)
    show ?thesis unfolding eq using 1 assms len o1 p2
      by (simp add: swap_entries_nth)
  next
    case 2
    then have z1: "1 \<le> z" by simp
    have eq: "order3 xs z o' p = swap_entries 2 p (swap_entries 1 z (swap_entries 0 o' (swap_entries o' z xs)))"
      using 2 assms by (simp add: order3_def)
    show ?thesis unfolding eq using 2 assms len z1 p2
      by (simp add: swap_entries_nth)
  qed
qed

lemma order3_length [simp]: "length (order3 xs z o' p) = length xs"
  by (auto simp: order3_def)


lemma move_w3_perms:
  "m_perm1 (permuted_matrix (move_w3 st z o' p zc oc pc)) = order3 (m_perm1 (permuted_matrix st)) z o' p"
  "m_perm2 (permuted_matrix (move_w3 st z o' p zc oc pc)) = order3 (m_perm2 (permuted_matrix st)) zc oc pc"
  "o_perm1 (permuted_matroid (move_w3 st z o' p zc oc pc)) = order3 (o_perm1 (permuted_matroid st)) z o' p"
  "o_perm2 (permuted_matroid (move_w3 st z o' p zc oc pc)) = order3 (o_perm2 (permuted_matroid st)) zc oc pc"
  "m_data (permuted_matrix (move_w3 st z o' p zc oc pc)) = m_data (permuted_matrix st)"
  by (auto simp: move_w3_def order3_def matroid_permute1_def matroid_permute2_def Let_def)

lemma move_w3_entries:
  assumes "z \<noteq> o'" "z < p" "o' < p" "p < length (m_perm1 (permuted_matrix st))"
    and "zc \<noteq> oc" "zc < pc" "oc < pc" "pc < length (m_perm2 (permuted_matrix st))"
    and "i < 3" "j < 3"
  shows "entry (move_w3 st z o' p zc oc pc) i j = entry st ([z, o', p] ! i) ([zc, oc, pc] ! j)"
proof -
  have i: "i = 0 \<or> i = 1 \<or> i = 2" and j: "j = 0 \<or> j = 1 \<or> j = 2" using assms by auto
  note r = order3_nth[OF assms(1-4)] and c = order3_nth[OF assms(5-8)]
  from i j r c show ?thesis
    by (auto simp: entry_def move_w3_perms)
qed

lemma walk_back_path:
  "walk_path res last_index current_index path \<Longrightarrow> asserts_hold dim res path \<Longrightarrow>
     walk_back dim res nd last_index current_index st w3_one_row w3_path_column =
       Some (Inr (foldl pivot_and_record st (pivots_of dim res nd path),
                  recorded_row dim res w3_one_row path,
                  recorded_column dim res w3_path_column path))"
proof (induction arbitrary: st w3_one_row w3_path_column rule: walk_path.induct)
  case (walk_end res current_index)
  show ?case
    by (subst walk_back.simps) (simp add: pivots_of_def recorded_row_def recorded_column_def)
next
  case (walk_step last_index current_index res path)
  from walk_step.prems have a: "asserts_hold dim res path"
    and c1: "distance (res ! current_index) = 1 \<Longrightarrow> is_column dim current_index"
    and c0: "distance (res ! current_index) = 0 \<Longrightarrow> is_row dim current_index"
    by (auto simp: asserts_hold_def)
  note IH = walk_step.IH[OF a]
  show ?case
    apply (subst walk_back.simps)
    using walk_step.hyps c1 c0
    apply (simp add: IH pivots_of_def recorded_row_def recorded_column_def)
    done
qed

lemma bfs_correctD:
  assumes "bfs_correct M dim start_nodes end_nodes (found_path, res)"
  shows "length res = height dim + width dim"
    and "\<forall>s\<in>set start_nodes. s < height dim + width dim \<and> distance (res ! s) = 0"
    and "\<forall>u\<in>set [0..<height dim + width dim].
             (distance (res ! u) = 0 \<longrightarrow> u \<in> set start_nodes \<and> predecessor (res ! u) = u)
           \<and> (0 < distance (res ! u) \<longrightarrow>
                predecessor (res ! u) < height dim + width dim
              \<and> distance (res ! predecessor (res ! u)) = distance (res ! u) - 1
              \<and> adjacent M dim (predecessor (res ! u)) u)
           \<and> (distance (res ! u) < 0 \<longrightarrow>
                distance (res ! u) = (if u \<in> set end_nodes then - 2 else - 1))"
    and "found_path = (\<exists>e\<in>set end_nodes. is_reachable (res ! e))"
    and "\<forall>u\<in>set [0..<height dim + width dim]. \<forall>e\<in>set end_nodes.
             is_reachable (res ! u) \<and> is_reachable (res ! e) \<longrightarrow> distance (res ! u) \<le> distance (res ! e)"
    and "\<forall>v\<in>set [0..<height dim + width dim]. \<forall>u\<in>set [0..<height dim + width dim].
             is_reachable (res ! v) \<and> adjacent M dim v u
             \<and> (\<forall>e\<in>set end_nodes. is_reachable (res ! e) \<longrightarrow> distance (res ! v) + 1 < distance (res ! e))
             \<longrightarrow> is_reachable (res ! u) \<and> distance (res ! u) \<le> distance (res ! v) + 1"
proof -
  note * = assms[unfolded bfs_correct_def Let_def list_all_iff list_ex_iff fst_conv snd_conv]
  show "length res = height dim + width dim"
    by (rule *[THEN conjunct1])
  show "\<forall>s\<in>set start_nodes. s < height dim + width dim \<and> distance (res ! s) = 0"
    by (rule *[THEN conjunct2, THEN conjunct1])
  show "\<forall>u\<in>set [0..<height dim + width dim].
             (distance (res ! u) = 0 \<longrightarrow> u \<in> set start_nodes \<and> predecessor (res ! u) = u)
           \<and> (0 < distance (res ! u) \<longrightarrow>
                predecessor (res ! u) < height dim + width dim
              \<and> distance (res ! predecessor (res ! u)) = distance (res ! u) - 1
              \<and> adjacent M dim (predecessor (res ! u)) u)
           \<and> (distance (res ! u) < 0 \<longrightarrow>
                distance (res ! u) = (if u \<in> set end_nodes then - 2 else - 1))"
    by (rule *[THEN conjunct2, THEN conjunct2, THEN conjunct1])
  show "found_path = (\<exists>e\<in>set end_nodes. is_reachable (res ! e))"
    by (rule *[THEN conjunct2, THEN conjunct2, THEN conjunct2, THEN conjunct1])
  show "\<forall>u\<in>set [0..<height dim + width dim]. \<forall>e\<in>set end_nodes.
             is_reachable (res ! u) \<and> is_reachable (res ! e) \<longrightarrow> distance (res ! u) \<le> distance (res ! e)"
    by (rule *[THEN conjunct2, THEN conjunct2, THEN conjunct2, THEN conjunct2, THEN conjunct1])
  show "\<forall>v\<in>set [0..<height dim + width dim]. \<forall>u\<in>set [0..<height dim + width dim].
             is_reachable (res ! v) \<and> adjacent M dim v u
             \<and> (\<forall>e\<in>set end_nodes. is_reachable (res ! e) \<longrightarrow> distance (res ! v) + 1 < distance (res ! e))
             \<longrightarrow> is_reachable (res ! u) \<and> distance (res ! u) \<le> distance (res ! v) + 1"
    by (rule *[THEN conjunct2, THEN conjunct2, THEN conjunct2, THEN conjunct2, THEN conjunct2])
qed

lemma bfs_correct_length:
  "bfs_correct M dim starts ends (found, res) \<Longrightarrow> length res = height dim + width dim"
  by (rule bfs_correctD(1))

lemma bfs_correct_start:
  "bfs_correct M dim starts ends (found, res) \<Longrightarrow> s \<in> set starts \<Longrightarrow>
     s < length res \<and> distance (res ! s) = 0"
  using bfs_correctD(1,2)[of M dim starts ends found res] by simp

lemma bfs_correct_node:
  assumes "bfs_correct M dim starts ends (found, res)" and "u < length res"
  shows "(distance (res ! u) = 0 \<longrightarrow> u \<in> set starts \<and> predecessor (res ! u) = u)
           \<and> (0 < distance (res ! u) \<longrightarrow>
                predecessor (res ! u) < length res
              \<and> distance (res ! predecessor (res ! u)) = distance (res ! u) - 1
              \<and> adjacent M dim (predecessor (res ! u)) u)
           \<and> (distance (res ! u) < 0 \<longrightarrow>
                distance (res ! u) = (if u \<in> set ends then - 2 else - 1))"
proof -
  from assms bfs_correctD(1)[OF assms(1)] have "u \<in> set [0..<height dim + width dim]" by simp
  from bfs_correctD(3)[OF assms(1), rule_format, OF this] bfs_correctD(1)[OF assms(1)]
  show ?thesis by simp
qed

lemma bfs_correct_zero:
  "bfs_correct M dim starts ends (found, res) \<Longrightarrow> u < length res \<Longrightarrow> distance (res ! u) = 0 \<Longrightarrow>
     u \<in> set starts \<and> predecessor (res ! u) = u"
  using bfs_correct_node[of M dim starts ends found res u] by blast

lemma bfs_correct_pred:
  "bfs_correct M dim starts ends (found, res) \<Longrightarrow> u < length res \<Longrightarrow> 0 < distance (res ! u) \<Longrightarrow>
     predecessor (res ! u) < length res
   \<and> distance (res ! predecessor (res ! u)) = distance (res ! u) - 1
   \<and> adjacent M dim (predecessor (res ! u)) u"
  using bfs_correct_node[of M dim starts ends found res u] by blast

lemma bfs_correct_unreached:
  "bfs_correct M dim starts ends (found, res) \<Longrightarrow> u < length res \<Longrightarrow> distance (res ! u) < 0 \<Longrightarrow>
     distance (res ! u) = (if u \<in> set ends then - 2 else - 1)"
  using bfs_correct_node[of M dim starts ends found res u] by blast

lemma bfs_correct_found:
  "bfs_correct M dim starts ends (found, res) \<Longrightarrow> found = (\<exists>e\<in>set ends. is_reachable (res ! e))"
  by (rule bfs_correctD(4))

lemma bfs_correct_complete:
  assumes "bfs_correct M dim starts ends (found, res)" and "v < length res" and "u < length res"
    and "is_reachable (res ! v)" and "adjacent M dim v u"
    and "\<And>e. e \<in> set ends \<Longrightarrow> is_reachable (res ! e) \<Longrightarrow> distance (res ! v) + 1 < distance (res ! e)"
  shows "is_reachable (res ! u) \<and> distance (res ! u) \<le> distance (res ! v) + 1"
proof -
  from assms(2,3) bfs_correctD(1)[OF assms(1)]
  have v: "v \<in> set [0..<height dim + width dim]" and u: "u \<in> set [0..<height dim + width dim]" by simp_all
  from bfs_correctD(6)[OF assms(1), rule_format, OF v u] assms(4,5,6)
  show ?thesis by blast
qed


lemma path_exists:
  assumes c: "bfs_correct M dim starts ends (found, res)"
    and rows: "\<And>s. s \<in> set starts \<Longrightarrow> is_row dim s"
  shows "u < length res \<Longrightarrow> distance (res ! u) = int k \<Longrightarrow> last_index \<noteq> u \<Longrightarrow>
     \<exists>path. walk_path res last_index u path \<and> asserts_hold dim res path
       \<and> (\<forall>r. recorded_row dim res r path \<in> set starts)
       \<and> (k = 0 \<longrightarrow> (\<forall>pc. recorded_column dim res pc path = pc))
       \<and> (0 < k \<longrightarrow> (\<exists>cn s. (\<forall>pc. recorded_column dim res pc path = index_to_column dim cn)
              \<and> cn < length res \<and> \<not> is_row dim cn \<and> s \<in> set starts \<and> adjacent M dim s cn))"
proof (induction k arbitrary: u last_index)
  case 0
  from bfs_correct_zero[OF c "0.prems"(1)] "0.prems" have st: "u \<in> set starts" and p: "predecessor (res ! u) = u"
    by auto
  have w: "walk_path res last_index u [(u, last_index)]"
    using "0.prems" p by (auto intro!: walk_step walk_end)
  have "asserts_hold dim res [(u, last_index)]"
    using "0.prems" rows[OF st] by (simp add: asserts_hold_def)
  moreover have "\<forall>r. recorded_row dim res r [(u, last_index)] \<in> set starts"
    using "0.prems" st by (simp add: recorded_row_def index_to_row_def)
  moreover have "\<forall>pc. recorded_column dim res pc [(u, last_index)] = pc"
    using "0.prems" by (simp add: recorded_column_def)
  ultimately show ?case using w by blast
next
  case (Suc k)
  let ?v = "predecessor (res ! u)"
  from Suc.prems have pos: "0 < distance (res ! u)" by simp
  from bfs_correct_pred[OF c Suc.prems(1) pos] Suc.prems
  have v: "?v < length res" and dv: "distance (res ! ?v) = int k" and adj: "adjacent M dim ?v u"
    by auto
  have neq: "u \<noteq> ?v" using dv Suc.prems by auto
  from Suc.IH[OF v dv neq] obtain path where
    w: "walk_path res u ?v path" and a: "asserts_hold dim res path"
    and rr: "\<forall>r. recorded_row dim res r path \<in> set starts"
    and k0: "k = 0 \<longrightarrow> (\<forall>pc. recorded_column dim res pc path = pc)"
    and kp: "0 < k \<longrightarrow> (\<exists>cn s. (\<forall>pc. recorded_column dim res pc path = index_to_column dim cn)
              \<and> cn < length res \<and> \<not> is_row dim cn \<and> s \<in> set starts \<and> adjacent M dim s cn)"
    by blast
  let ?path = "(u, last_index) # path"
  have w': "walk_path res last_index u ?path"
    using Suc.prems w by (auto intro: walk_step)
  have vrow: "k = 0 \<Longrightarrow> ?v \<in> set starts"
    using bfs_correct_zero[OF c v] dv by simp
  have ucol: "k = 0 \<Longrightarrow> \<not> is_row dim u"
    using adj rows[OF vrow] by (auto simp: adjacent_def)
  have a': "asserts_hold dim res ?path"
    using a Suc.prems ucol by (auto simp: asserts_hold_def is_column_def is_row_def)
  have rr': "\<forall>r. recorded_row dim res r ?path \<in> set starts"
    using rr Suc.prems by (simp add: recorded_row_def)
  have rc': "\<exists>cn s. (\<forall>pc. recorded_column dim res pc ?path = index_to_column dim cn)
              \<and> cn < length res \<and> \<not> is_row dim cn \<and> s \<in> set starts \<and> adjacent M dim s cn"
  proof (cases "k = 0")
    case True
    with k0 have "\<forall>pc. recorded_column dim res pc ?path = index_to_column dim u"
      using Suc.prems by (simp add: recorded_column_def)
    with True Suc.prems(1) ucol vrow adj show ?thesis by blast
  next
    case False
    with kp obtain cn s where "\<forall>pc. recorded_column dim res pc path = index_to_column dim cn"
      and r: "cn < length res" "\<not> is_row dim cn" "s \<in> set starts" "adjacent M dim s cn" by auto
    then have "\<forall>pc. recorded_column dim res pc ?path = index_to_column dim cn"
      by (simp add: recorded_column_def)
    with r show ?thesis by blast
  qed
  from w' a' rr' rc' show ?case by blast
qed

lemma nearest_end_fold:
  "\<exists>e\<in>set ends. is_reachable (res ! e) \<Longrightarrow>
     foldl (\<lambda>nearest e. if is_reachable (res ! e) then e else nearest) x ends \<in> set ends
   \<and> is_reachable (res ! foldl (\<lambda>nearest e. if is_reachable (res ! e) then e else nearest) x ends)"
proof (induction ends rule: rev_induct)
  case Nil
  then show ?case by simp
next
  case (snoc e ends)
  then show ?case by (cases "is_reachable (res ! e)") auto
qed

lemma pivot_and_record_frame:
  "m_perm1 (permuted_matrix (pivot_and_record st c)) = m_perm1 (permuted_matrix st)"
  "m_perm2 (permuted_matrix (pivot_and_record st c)) = m_perm2 (permuted_matrix st)"
  "m_size1 (permuted_matrix (pivot_and_record st c)) = m_size1 (permuted_matrix st)"
  "m_size2 (permuted_matrix (pivot_and_record st c)) = m_size2 (permuted_matrix st)"
  "o_perm1 (permuted_matroid (pivot_and_record st c)) = o_perm1 (permuted_matroid st)"
  "o_perm2 (permuted_matroid (pivot_and_record st c)) = o_perm2 (permuted_matroid st)"
  "o_size1 (permuted_matroid (pivot_and_record st c)) = o_size1 (permuted_matroid st)"
  "o_size2 (permuted_matroid (pivot_and_record st c)) = o_size2 (permuted_matroid st)"
  by (simp_all add: pivot_and_record_def matroid_binary_pivot_def Let_def)

lemma pivots_frame:
  "m_perm1 (permuted_matrix (foldl pivot_and_record st cs)) = m_perm1 (permuted_matrix st)"
  "m_perm2 (permuted_matrix (foldl pivot_and_record st cs)) = m_perm2 (permuted_matrix st)"
  "m_size1 (permuted_matrix (foldl pivot_and_record st cs)) = m_size1 (permuted_matrix st)"
  "m_size2 (permuted_matrix (foldl pivot_and_record st cs)) = m_size2 (permuted_matrix st)"
  "o_perm1 (permuted_matroid (foldl pivot_and_record st cs)) = o_perm1 (permuted_matroid st)"
  "o_perm2 (permuted_matroid (foldl pivot_and_record st cs)) = o_perm2 (permuted_matroid st)"
  "o_size1 (permuted_matroid (foldl pivot_and_record st cs)) = o_size1 (permuted_matroid st)"
  "o_size2 (permuted_matroid (foldl pivot_and_record st cs)) = o_size2 (permuted_matroid st)"
  by (induction cs arbitrary: st; simp add: pivot_and_record_frame)+

lemma find_zero_column_result:
  "find_zero_column st r bw c0 = Inr c \<Longrightarrow> c0 < bw \<Longrightarrow> c < bw \<and> entry st r c = 0"
proof (induction st r bw c0 rule: find_zero_column.induct)
  case (1 st r bw c0)
  from "1.prems"(1) have "(if entry st r c0 \<noteq> 0 then
        (if c0 + 1 < bw then find_zero_column st r bw (c0 + 1) else Inl AssertFailed)
      else Inr c0) = Inr c"
    by (subst (asm) find_zero_column.simps)
  with "1.IH" "1.prems"(2) show ?case
    by (auto split: if_splits)
qed

lemma find_zero_row_result:
  "find_zero_row st c bh r0 = Inr r \<Longrightarrow> r0 < bh \<Longrightarrow> r < bh \<and> entry st r c = 0"
proof (induction st c bh r0 rule: find_zero_row.induct)
  case (1 st c bh r0)
  from "1.prems"(1) have "(if entry st r0 c \<noteq> 0 then
        (if r0 + 1 < bh then find_zero_row st c bh (r0 + 1) else Inl AssertFailed)
      else Inr r0) = Inr r"
    by (subst (asm) find_zero_row.simps)
  with "1.IH" "1.prems"(2) show ?case
    by (auto split: if_splits)
qed

lemma find_zero_column_failure:
  "find_zero_column st r bw c0 = Inl e \<Longrightarrow> e = AssertFailed"
proof (induction st r bw c0 rule: find_zero_column.induct)
  case (1 st r bw c0)
  from "1.prems"(1) have "(if entry st r c0 \<noteq> 0 then
        (if c0 + 1 < bw then find_zero_column st r bw (c0 + 1) else Inl AssertFailed)
      else Inr c0) = Inl e"
    by (subst (asm) find_zero_column.simps)
  with "1.IH" show ?case
    by (auto split: if_splits)
qed

lemma find_zero_row_failure:
  "find_zero_row st c bh r0 = Inl e \<Longrightarrow> e = AssertFailed"
proof (induction st c bh r0 rule: find_zero_row.induct)
  case (1 st c bh r0)
  from "1.prems"(1) have "(if entry st r0 c \<noteq> 0 then
        (if r0 + 1 < bh then find_zero_row st c bh (r0 + 1) else Inl AssertFailed)
      else Inr r0) = Inl e"
    by (subst (asm) find_zero_row.simps)
  with "1.IH" show ?case
    by (auto split: if_splits)
qed

lemma extract_wheel_run:
  assumes len1: "length (m_perm1 (permuted_matrix st)) = m_size1 (permuted_matrix st)"
    and len2: "length (m_perm2 (permuted_matrix st)) = m_size2 (permuted_matrix st)"
    and bh: "2 \<le> bh" "bh \<le> m_size1 (permuted_matrix st)"
    and bw: "2 \<le> bw" "bw \<le> m_size2 (permuted_matrix st)"
    and c: "bfs_correct (modified_matrix st bh bw) (wheel_dim st)
              (wheel_start_nodes st bh) (wheel_end_nodes st bw) (True, res)"
  defines "ne \<equiv> foldl (\<lambda>nearest e. if is_reachable (res ! e) then e else nearest) 0 (wheel_end_nodes st bw)"
  defines "nd \<equiv> nat (distance (res ! ne) + 1)"
  shows "\<exists>r. extract_wheel (wheel_dim st) res st bh bw (wheel_end_nodes st bw) = Some r
      \<and> (r = Inl AssertFailed
         \<or> (\<exists>path st1 z o' p zc oc pc.
               r = Inr (separation_empty, move_w3 st1 z o' p zc oc pc)
             \<and> walk_path res ne (predecessor (res ! ne)) path
             \<and> st1 = foldl pivot_and_record st (pivots_of (wheel_dim st) res nd path)
             \<and> walk_back (wheel_dim st) res nd ne (predecessor (res ! ne)) st 0 0 = Some (Inr (st1, o', pc))
             \<and> p = index_to_row (wheel_dim st) (predecessor (res ! ne))
             \<and> oc = index_to_column (wheel_dim st) ne
             \<and> o' = recorded_row (wheel_dim st) res 0 path
             \<and> pc = recorded_column (wheel_dim st) res 0 path
             \<and> find_zero_column st p bw 0 = Inr zc
             \<and> find_zero_row st1 pc bh 0 = Inr z
             \<and> z < bh \<and> o' < bh \<and> bh \<le> p \<and> p < m_size1 (permuted_matrix st) \<and> z \<noteq> o'
             \<and> zc < bw \<and> oc < bw \<and> bw \<le> pc \<and> pc < m_size2 (permuted_matrix st) \<and> zc \<noteq> oc
             \<and> entry st1 o' oc = 1 \<and> entry st1 o' zc = 1 \<and> entry st1 o' pc = 1
             \<and> entry st1 z oc = 1 \<and> entry st1 z zc = 1 \<and> entry st1 z pc = 0
             \<and> entry st1 p oc = 1 \<and> entry st1 p zc = 0 \<and> entry st1 p pc = 1
             \<and> (\<forall>i<3. \<forall>j<3. entry (move_w3 st1 z o' p zc oc pc) i j
                   = entry st1 ([z, o', p] ! i) ([zc, oc, pc] ! j))))"
proof -
  let ?dim = "wheel_dim st"
  let ?M = "modified_matrix st bh bw"
  let ?h = "m_size1 (permuted_matrix st)"
  let ?w = "m_size2 (permuted_matrix st)"
  let ?starts = "wheel_start_nodes st bh"
  let ?ends = "wheel_end_nodes st bw"
  have h: "height ?dim = ?h" and w: "width ?dim = ?w" by (simp_all add: wheel_dim_def)
  have lres: "length res = ?h + ?w" using bfs_correct_length[OF c] h w by simp
  have starts: "set ?starts = {0..<bh}"
    by (auto simp: wheel_start_nodes_def row_to_index_def)
  have ends: "set ?ends = {?h..<?h + bw}"
    by (auto simp: wheel_end_nodes_def column_to_index_def h image_iff intro: le_Suc_ex
        intro!: bexI[of _ "x - ?h" for x])
  have rows: "\<And>s. s \<in> set ?starts \<Longrightarrow> is_row ?dim s"
    using starts bh by (auto simp: is_row_def h)
  from bfs_correct_found[OF c] have "\<exists>e\<in>set ?ends. is_reachable (res ! e)" by simp
  from nearest_end_fold[OF this, of 0]
  have ne_end: "ne \<in> set ?ends" and ne_reach: "is_reachable (res ! ne)"
    by (simp_all add: ne_def)
  define oc where "oc = index_to_column ?dim ne"
  have ne_col: "?h \<le> ne" "ne < ?h + bw" using ne_end ends by auto
  then have oc_bw: "oc < bw" and ne_oc: "ne = ?h + oc"
    by (auto simp: oc_def index_to_column_def h)
  have ne_len: "ne < length res" using ne_col bw lres by simp
  have ne_notrow: "\<not> is_row ?dim ne" using ne_col by (simp add: is_row_def h)
  have dne0: "distance (res ! ne) \<noteq> 0"
  proof
    assume "distance (res ! ne) = 0"
    from bfs_correct_zero[OF c ne_len this] starts have "ne < bh" by simp
    with ne_col bh show False by simp
  qed
  with ne_reach have dne: "0 < distance (res ! ne)" by (simp add: is_reachable_def)
  define pidx where "pidx = predecessor (res ! ne)"
  from bfs_correct_pred[OF c ne_len dne]
  have p_len: "pidx < length res" and dp: "distance (res ! pidx) = distance (res ! ne) - 1"
    and adj: "adjacent ?M ?dim pidx ne" by (simp_all add: pidx_def)
  from adj ne_notrow have p_row: "is_row ?dim pidx" by (simp add: adjacent_def)
  then have p_h: "pidx < ?h" by (simp add: is_row_def h)
  from adj p_row have "?M pidx oc \<noteq> 0"
    by (simp add: adjacent_def indexes_to_coordinates_def index_to_row_def oc_def)
  then have p_bh: "bh \<le> pidx" using oc_bw
    by (auto simp: modified_matrix_def zero_block_matrix_modifier_def split: if_splits)
  have dp_pos: "0 < distance (res ! pidx)"
  proof (rule ccontr)
    assume "\<not> 0 < distance (res ! pidx)"
    with dp dne have "distance (res ! pidx) = 0" by simp
    from bfs_correct_zero[OF c p_len this] starts have "pidx < bh" by simp
    with p_bh show False by simp
  qed
  define k where "k = nat (distance (res ! pidx))"
  have dk: "distance (res ! pidx) = int k" and kpos: "0 < k" using dp_pos by (simp_all add: k_def)
  have neq: "ne \<noteq> pidx" using ne_notrow p_row by auto
  from path_exists[OF c rows p_len dk neq] kpos obtain path cn s where
    wp: "walk_path res ne pidx path" and ah: "asserts_hold ?dim res path"
    and rr: "\<forall>r. recorded_row ?dim res r path \<in> set ?starts"
    and rc: "\<forall>pc. recorded_column ?dim res pc path = index_to_column ?dim cn"
    and cn: "cn < length res" "\<not> is_row ?dim cn" and s: "s \<in> set ?starts"
    and adj2: "adjacent ?M ?dim s cn"
    by blast
  define o' where "o' = recorded_row ?dim res 0 path"
  define pc where "pc = recorded_column ?dim res 0 path"
  have o_bh: "o' < bh" using rr starts by (simp add: o'_def)
  have pc_eq: "pc = cn - ?h" using rc by (simp add: pc_def index_to_column_def h)
  have pc_w: "pc < ?w" using cn lres by (auto simp: pc_eq is_row_def h)
  have s_bh: "s < bh" using s starts by simp
  from adj2 rows[OF s] have "?M s pc \<noteq> 0"
    by (simp add: adjacent_def indexes_to_coordinates_def index_to_row_def index_to_column_def pc_eq h)
  then have pc_bw: "bw \<le> pc" using s_bh
    by (auto simp: modified_matrix_def zero_block_matrix_modifier_def split: if_splits)
  define st1 where "st1 = foldl pivot_and_record st (pivots_of ?dim res nd path)"
  have walk: "walk_back ?dim res nd ne pidx st 0 0 = Some (Inr (st1, o', pc))"
    using walk_back_path[OF wp ah] by (simp add: st1_def o'_def pc_def)
  have l1: "length (m_perm1 (permuted_matrix st1)) = ?h"
    and l2: "length (m_perm2 (permuted_matrix st1)) = ?w"
    using len1 len2 by (simp_all add: st1_def pivots_frame)
  have p_eq: "index_to_row ?dim pidx = pidx" by (simp add: index_to_row_def)
  have unfold: "extract_wheel ?dim res st bh bw ?ends =
      (if nd mod 2 \<noteq> 0 then Some (Inl AssertFailed)
       else case find_zero_column st pidx bw 0 of
              Inl e \<Rightarrow> Some (Inl e)
            | Inr zc \<Rightarrow>
                (case find_zero_row st1 pc bh 0 of
                   Inl e \<Rightarrow> Some (Inl e)
                 | Inr z \<Rightarrow>
                     if \<not> (entry st1 o' oc = 1 \<and> entry st1 o' zc = 1 \<and> entry st1 o' pc = 1
                          \<and> entry st1 z oc = 1 \<and> entry st1 z zc = 1 \<and> entry st1 z pc = 0
                          \<and> entry st1 pidx oc = 1 \<and> entry st1 pidx zc = 0 \<and> entry st1 pidx pc = 1)
                     then Some (Inl AssertFailed)
                     else Some (Inr (separation_empty, move_w3 st1 z o' pidx zc oc pc))))"
    unfolding extract_wheel_def Let_def ne_def[symmetric]
    using ne_len ne_reach
    by (simp add: nd_def[symmetric] pidx_def[symmetric] oc_def[symmetric] p_eq walk
          split: sum.splits)
  show ?thesis
  proof (cases "nd mod 2 \<noteq> 0")
    case True
    with unfold show ?thesis by simp
  next
    case even: False
    show ?thesis
    proof (cases "find_zero_column st pidx bw 0")
      case (Inl e)
      with find_zero_column_failure[OF Inl] unfold even show ?thesis by simp
    next
      case zcr: (Inr zc)
      from find_zero_column_result[OF zcr] bw have zc_bw: "zc < bw" by simp
      show ?thesis
      proof (cases "find_zero_row st1 pc bh 0")
        case (Inl e)
        with find_zero_row_failure[OF Inl] unfold even zcr show ?thesis by simp
      next
        case zr: (Inr z)
        from find_zero_row_result[OF zr] bh have z_bh: "z < bh" by simp
        show ?thesis
        proof (cases "entry st1 o' oc = 1 \<and> entry st1 o' zc = 1 \<and> entry st1 o' pc = 1
                          \<and> entry st1 z oc = 1 \<and> entry st1 z zc = 1 \<and> entry st1 z pc = 0
                          \<and> entry st1 pidx oc = 1 \<and> entry st1 pidx zc = 0 \<and> entry st1 pidx pc = 1")
          case False
          with unfold even zcr zr show ?thesis by simp
        next
          case True
          then have e: "entry st1 o' oc = 1" "entry st1 o' zc = 1" "entry st1 o' pc = 1"
            "entry st1 z oc = 1" "entry st1 z zc = 1" "entry st1 z pc = 0"
            "entry st1 pidx oc = 1" "entry st1 pidx zc = 0" "entry st1 pidx pc = 1" by simp_all
          have r: "extract_wheel ?dim res st bh bw ?ends
                     = Some (Inr (separation_empty, move_w3 st1 z o' pidx zc oc pc))"
            using unfold even zcr zr True by simp
          have zo: "z \<noteq> o'" using e(3,6) by auto
          have zcoc: "zc \<noteq> oc" using e(7,8) by auto
          have mv: "\<forall>i<3. \<forall>j<3. entry (move_w3 st1 z o' pidx zc oc pc) i j
                   = entry st1 ([z, o', pidx] ! i) ([zc, oc, pc] ! j)"
          proof (intro allI impI)
            fix i j :: nat assume "i < 3" "j < 3"
            then show "entry (move_w3 st1 z o' pidx zc oc pc) i j
                   = entry st1 ([z, o', pidx] ! i) ([zc, oc, pc] ! j)"
              using move_w3_entries[of z o' pidx st1 zc oc pc i j] zo zcoc z_bh o_bh p_bh p_h
                zc_bw oc_bw pc_bw pc_w l1 l2 by simp
          qed
          have "\<exists>path st1' z' o'' p' zc' oc' pc'.
               Inr (separation_empty, move_w3 st1 z o' pidx zc oc pc)
                 = (Inr (separation_empty, move_w3 st1' z' o'' p' zc' oc' pc') :: failure + separation \<times> wheel_state)
             \<and> walk_path res ne (predecessor (res ! ne)) path
             \<and> st1' = foldl pivot_and_record st (pivots_of (wheel_dim st) res nd path)
             \<and> walk_back (wheel_dim st) res nd ne (predecessor (res ! ne)) st 0 0 = Some (Inr (st1', o'', pc'))
             \<and> p' = index_to_row (wheel_dim st) (predecessor (res ! ne))
             \<and> oc' = index_to_column (wheel_dim st) ne
             \<and> o'' = recorded_row (wheel_dim st) res 0 path
             \<and> pc' = recorded_column (wheel_dim st) res 0 path
             \<and> find_zero_column st p' bw 0 = Inr zc'
             \<and> find_zero_row st1' pc' bh 0 = Inr z'
             \<and> z' < bh \<and> o'' < bh \<and> bh \<le> p' \<and> p' < m_size1 (permuted_matrix st) \<and> z' \<noteq> o''
             \<and> zc' < bw \<and> oc' < bw \<and> bw \<le> pc' \<and> pc' < m_size2 (permuted_matrix st) \<and> zc' \<noteq> oc'
             \<and> entry st1' o'' oc' = 1 \<and> entry st1' o'' zc' = 1 \<and> entry st1' o'' pc' = 1
             \<and> entry st1' z' oc' = 1 \<and> entry st1' z' zc' = 1 \<and> entry st1' z' pc' = 0
             \<and> entry st1' p' oc' = 1 \<and> entry st1' p' zc' = 0 \<and> entry st1' p' pc' = 1
             \<and> (\<forall>i<3. \<forall>j<3. entry (move_w3 st1' z' o'' p' zc' oc' pc') i j
                   = entry st1' ([z', o'', p'] ! i) ([zc', oc', pc'] ! j))"
            apply (rule exI[of _ path], rule exI[of _ st1], rule exI[of _ z], rule exI[of _ o'],
                rule exI[of _ pidx], rule exI[of _ zc], rule exI[of _ oc], rule exI[of _ pc])
            using wp zcr zr z_bh o_bh p_bh p_h zo zc_bw oc_bw pc_bw pc_w zcoc e mv
              walk[unfolded st1_def pidx_def o'_def pc_def]
            apply (simp add: st1_def pidx_def oc_def o'_def pc_def index_to_row_def)
            done
          with r show ?thesis by blast
        qed
      qed
    qed
  qed
qed

lemma reorder_mset: "mset (reorder key first beyond n) = mset [0..<n]"
proof -
  let ?a = "min first n" and ?b = "min beyond n"
  have "mset (reorder key first beyond n) = mset ([0..<?a] @ [?a..<?b] @ [max ?a ?b..<n])"
    by (simp add: reorder_def)
  also have "[0..<?a] @ [?a..<?b] @ [max ?a ?b..<n] = [0..<n]"
  proof (cases "?a \<le> ?b")
    case True
    then have "max ?a ?b = ?b" by simp
    moreover have "[0..<?a] @ [?a..<?b] = [0..<?b]" using True
      by (metis le0 upt_add_eq_append le_add_diff_inverse)
    moreover have "[0..<?b] @ [?b..<n] = [0..<n]"
      by (metis le0 upt_add_eq_append le_add_diff_inverse min.cobounded2)
    ultimately show ?thesis by (metis append.assoc)
  next
    case False
    then have ba: "?b \<le> ?a" by linarith
    then have "max ?a ?b = ?a" by (rule max_absorb1)
    moreover from ba have "[?a..<?b] = []" by (simp only: upt_eq_Nil_conv) blast
    moreover have "[0..<?a] @ [?a..<n] = [0..<n]"
      by (metis le0 upt_add_eq_append le_add_diff_inverse min.cobounded2)
    ultimately show ?thesis by simp
  qed
  finally show ?thesis .
qed

lemma reorder_length [simp]: "length (reorder key first beyond n) = n"
  using arg_cong[OF reorder_mset, of size key first beyond n] by simp



lemma reorder_nth_before: "k < first \<Longrightarrow> k < n \<Longrightarrow> reorder key first beyond n ! k = k"
  by (simp add: reorder_def nth_append)

lemma mset_map_nth:
  assumes "mset order = mset [0..<length xs]"
  shows "mset (map (\<lambda>k. xs ! k) order) = mset xs"
proof -
  have "mset (map (\<lambda>k. xs ! k) order) = image_mset (\<lambda>k. xs ! k) (mset order)" by simp
  also have "\<dots> = mset (map (\<lambda>k. xs ! k) [0..<length xs])" using assms by simp
  also have "\<dots> = mset xs" by (simp add: map_nth)
  finally show ?thesis .
qed

lemma well_formed_lengths:
  "well_formed st \<Longrightarrow> length (m_perm1 (permuted_matrix st)) = m_size1 (permuted_matrix st)
     \<and> length (m_perm2 (permuted_matrix st)) = m_size2 (permuted_matrix st)"
  unfolding well_formed_def
  by (metis length_upt mset_eq_length diff_zero)

lemma reorder_frame:
  "m_size1 (permuted_matrix (matroid_reorder_columns st rf rb cf cb)) = m_size1 (permuted_matrix st)"
  "m_size2 (permuted_matrix (matroid_reorder_columns st rf rb cf cb)) = m_size2 (permuted_matrix st)"
  "o_size1 (permuted_matroid (matroid_reorder_columns st rf rb cf cb)) = o_size1 (permuted_matroid st)"
  "o_size2 (permuted_matroid (matroid_reorder_columns st rf rb cf cb)) = o_size2 (permuted_matroid st)"
  "m_size1 (permuted_matrix (matroid_reorder_rows st rf rb cf cb)) = m_size1 (permuted_matrix st)"
  "m_size2 (permuted_matrix (matroid_reorder_rows st rf rb cf cb)) = m_size2 (permuted_matrix st)"
  "o_size1 (permuted_matroid (matroid_reorder_rows st rf rb cf cb)) = o_size1 (permuted_matroid st)"
  "o_size2 (permuted_matroid (matroid_reorder_rows st rf rb cf cb)) = o_size2 (permuted_matroid st)"
  by (simp_all add: matroid_reorder_columns_def matroid_reorder_rows_def Let_def)

lemma reorder_columns_fields:
  "m_perm2 (permuted_matrix (matroid_reorder_columns st rf rb cf cb)) =
     map (\<lambda>k. m_perm2 (permuted_matrix st) ! k)
       (reorder (\<lambda>c. map (\<lambda>r. - entry st r c) [rf..<rb]) cf cb (length (m_perm2 (permuted_matrix st))))"
  "o_perm2 (permuted_matroid (matroid_reorder_columns st rf rb cf cb)) =
     map (\<lambda>k. o_perm2 (permuted_matroid st) ! k)
       (reorder (\<lambda>c. map (\<lambda>r. - entry st r c) [rf..<rb]) cf cb (length (m_perm2 (permuted_matrix st))))"
  "m_perm1 (permuted_matrix (matroid_reorder_columns st rf rb cf cb)) = m_perm1 (permuted_matrix st)"
  "o_perm1 (permuted_matroid (matroid_reorder_columns st rf rb cf cb)) = o_perm1 (permuted_matroid st)"
  "m_data (permuted_matrix (matroid_reorder_columns st rf rb cf cb)) = m_data (permuted_matrix st)"
  by (simp_all add: matroid_reorder_columns_def Let_def)

lemma reorder_rows_fields:
  "m_perm1 (permuted_matrix (matroid_reorder_rows st rf rb cf cb)) =
     map (\<lambda>k. m_perm1 (permuted_matrix st) ! k)
       (reorder (\<lambda>r. map (\<lambda>c. - entry st r c) [cf..<cb]) rf rb (length (m_perm1 (permuted_matrix st))))"
  "o_perm1 (permuted_matroid (matroid_reorder_rows st rf rb cf cb)) =
     map (\<lambda>k. o_perm1 (permuted_matroid st) ! k)
       (reorder (\<lambda>r. map (\<lambda>c. - entry st r c) [cf..<cb]) rf rb (length (m_perm1 (permuted_matrix st))))"
  "m_perm2 (permuted_matrix (matroid_reorder_rows st rf rb cf cb)) = m_perm2 (permuted_matrix st)"
  "o_perm2 (permuted_matroid (matroid_reorder_rows st rf rb cf cb)) = o_perm2 (permuted_matroid st)"
  "m_data (permuted_matrix (matroid_reorder_rows st rf rb cf cb)) = m_data (permuted_matrix st)"
  by (simp_all add: matroid_reorder_rows_def Let_def)

lemma well_formed_reorder_columns:
  assumes "well_formed st"
  shows "well_formed (matroid_reorder_columns st rf rb cf cb)"
proof -
  let ?p = "m_perm2 (permuted_matrix st)"
  let ?order = "reorder (\<lambda>c. map (\<lambda>r. - entry st r c) [rf..<rb]) cf cb (length ?p)"
  have eq: "mset (map (\<lambda>k. ?p ! k) ?order) = mset ?p"
    by (rule mset_map_nth) (rule reorder_mset)
  from assms have o: "o_perm2 (permuted_matroid st) = ?p" by (simp add: well_formed_def)
  show ?thesis
    unfolding well_formed_def reorder_columns_fields reorder_frame o eq
    using assms unfolding well_formed_def by blast
qed

lemma well_formed_reorder_rows:
  assumes "well_formed st"
  shows "well_formed (matroid_reorder_rows st rf rb cf cb)"
proof -
  let ?p = "m_perm1 (permuted_matrix st)"
  let ?order = "reorder (\<lambda>r. map (\<lambda>c. - entry st r c) [cf..<cb]) rf rb (length ?p)"
  have eq: "mset (map (\<lambda>k. ?p ! k) ?order) = mset ?p"
    by (rule mset_map_nth) (rule reorder_mset)
  from assms have o: "o_perm1 (permuted_matroid st) = ?p" by (simp add: well_formed_def)
  show ?thesis
    unfolding well_formed_def reorder_rows_fields reorder_frame o eq
    using assms unfolding well_formed_def by blast
qed

lemma well_formed_pivot: "well_formed st \<Longrightarrow> well_formed (pivot_and_record st c)"
  by (simp add: well_formed_def pivot_and_record_frame)


lemma count_column_series_le:
  "matrix_count_property_column_series st rf rb cf cb check \<le> cb - cf"
  unfolding matrix_count_property_column_series_def
  by (metis length_takeWhile_le length_upt)

lemma count_row_series_le:
  "matrix_count_property_row_series st rf rb cf cb check \<le> rb - rf"
  unfolding matrix_count_property_row_series_def
  by (metis length_takeWhile_le length_upt)

lemma grow_block_Block:
  assumes "grow_block st = Inr (Block st5 bh bw)"
  shows "\<exists>st1 st2 st3 st4.
       3 \<le> m_size1 (permuted_matrix st) \<and> 3 \<le> o_size2 (permuted_matroid st)
     \<and> st1 = matroid_reorder_columns st 0 1 0 (o_size2 (permuted_matroid st))
     \<and> st2 = matroid_reorder_rows st1 1 (o_size1 (permuted_matroid st1)) 0 1
     \<and> st3 = (if entry st2 1 1 \<noteq> 1 then pivot_and_record st2 (0, 0) else st2)
     \<and> entry st3 0 0 = 1 \<and> entry st3 1 0 = 1 \<and> entry st3 0 1 = 1 \<and> entry st3 1 1 = 1
     \<and> st4 = matroid_reorder_columns st3 0 2 2 (o_size2 (permuted_matroid st3))
     \<and> bw = 2 + matrix_count_property_column_series st4 0 2 2 (m_size2 (permuted_matrix st4)) is_all_ones
     \<and> st5 = matroid_reorder_rows st4 2 (o_size1 (permuted_matroid st4)) 0 bw
     \<and> bh = 2 + matrix_count_property_row_series st5 2 (m_size1 (permuted_matrix st5)) 0 bw is_all_ones"
  using assms unfolding grow_block_def Let_def
  by (simp split: if_splits)

lemma grow_block_bounds:
  assumes wf: "well_formed st" and g: "grow_block st = Inr (Block st5 bh bw)"
  shows "well_formed st5 \<and> 3 \<le> m_size1 (permuted_matrix st5) \<and> 3 \<le> m_size2 (permuted_matrix st5)
     \<and> 2 \<le> bh \<and> bh \<le> m_size1 (permuted_matrix st5) \<and> 2 \<le> bw \<and> bw \<le> m_size2 (permuted_matrix st5)"
proof -
  from grow_block_Block[OF g] obtain st1 st2 st3 st4 where
    s: "3 \<le> m_size1 (permuted_matrix st)" "3 \<le> o_size2 (permuted_matroid st)"
    and st1: "st1 = matroid_reorder_columns st 0 1 0 (o_size2 (permuted_matroid st))"
    and st2: "st2 = matroid_reorder_rows st1 1 (o_size1 (permuted_matroid st1)) 0 1"
    and st3: "st3 = (if entry st2 1 1 \<noteq> 1 then pivot_and_record st2 (0, 0) else st2)"
    and st4: "st4 = matroid_reorder_columns st3 0 2 2 (o_size2 (permuted_matroid st3))"
    and bw: "bw = 2 + matrix_count_property_column_series st4 0 2 2 (m_size2 (permuted_matrix st4)) is_all_ones"
    and st5: "st5 = matroid_reorder_rows st4 2 (o_size1 (permuted_matroid st4)) 0 bw"
    and bh: "bh = 2 + matrix_count_property_row_series st5 2 (m_size1 (permuted_matrix st5)) 0 bw is_all_ones"
    by blast
  have wf1: "well_formed st1" using wf st1 by (simp add: well_formed_reorder_columns)
  have wf2: "well_formed st2" using wf1 st2 by (simp add: well_formed_reorder_rows)
  have wf3: "well_formed st3" using wf2 st3 by (simp add: well_formed_pivot)
  have wf4: "well_formed st4" using wf3 st4 by (simp add: well_formed_reorder_columns)
  have wf5: "well_formed st5" using wf4 st5 by (simp add: well_formed_reorder_rows)
  have sz1: "m_size1 (permuted_matrix st5) = m_size1 (permuted_matrix st)"
    and sz2: "m_size2 (permuted_matrix st5) = m_size2 (permuted_matrix st)"
    and sz2': "m_size2 (permuted_matrix st4) = m_size2 (permuted_matrix st)"
    by (simp_all add: st1 st2 st3 st4 st5 reorder_frame pivot_and_record_frame)
  have o2: "o_size2 (permuted_matroid st) = m_size2 (permuted_matrix st)"
    using wf by (simp add: well_formed_def)
  have "bw \<le> 2 + (m_size2 (permuted_matrix st) - 2)"
    using count_column_series_le[of st4 0 2 2 "m_size2 (permuted_matrix st4)" is_all_ones]
    by (simp add: bw sz2')
  moreover have "bh \<le> 2 + (m_size1 (permuted_matrix st) - 2)"
    using count_row_series_le[of st5 2 "m_size1 (permuted_matrix st5)" 0 bw is_all_ones]
    by (simp add: bh sz1)
  ultimately have "bw \<le> m_size2 (permuted_matrix st)" "bh \<le> m_size1 (permuted_matrix st)"
    using s o2 by linarith+
  moreover have "2 \<le> bw" "2 \<le> bh" by (simp_all add: bw bh)
  ultimately show ?thesis using wf5 s o2 sz1 sz2 by simp
qed

lemma find_wheel_minor_Block:
  assumes g: "grow_block st = Inr (Block st5 bh bw)"
  shows "find_wheel_minor bfs st =
     (if length (snd (wheel_search bfs st5 bh bw)) \<noteq> height (wheel_dim st5) + width (wheel_dim st5)
      then Some (Inl OutOfRange)
      else if \<not> fst (wheel_search bfs st5 bh bw)
      then Some (Inr (no_path_separation (wheel_dim st5) (snd (wheel_search bfs st5 bh bw)) st5))
      else extract_wheel (wheel_dim st5) (snd (wheel_search bfs st5 bh bw)) st5 bh bw (wheel_end_nodes st5 bw))"
  unfolding find_wheel_minor_def g
  by (simp add: Let_def wheel_search_def wheel_dim_def wheel_start_nodes_def wheel_end_nodes_def
      split: prod.splits)

lemma find_wheel_minor_found:
  assumes wf: "well_formed st" and g: "grow_block st = Inr (Block st5 bh bw)"
    and sc: "search_correct bfs st5 bh bw" and found: "fst (wheel_search bfs st5 bh bw)"
  defines "res \<equiv> snd (wheel_search bfs st5 bh bw)"
  defines "ne \<equiv> foldl (\<lambda>nearest e. if is_reachable (res ! e) then e else nearest) 0 (wheel_end_nodes st5 bw)"
  defines "nd \<equiv> nat (distance (res ! ne) + 1)"
  shows "\<exists>r. find_wheel_minor bfs st = Some r
      \<and> (r = Inl AssertFailed
         \<or> (\<exists>path st1 z o' p zc oc pc.
               r = Inr (separation_empty, move_w3 st1 z o' p zc oc pc)
             \<and> walk_path res ne (predecessor (res ! ne)) path
             \<and> st1 = foldl pivot_and_record st5 (pivots_of (wheel_dim st5) res nd path)
             \<and> walk_back (wheel_dim st5) res nd ne (predecessor (res ! ne)) st5 0 0 = Some (Inr (st1, o', pc))
             \<and> p = index_to_row (wheel_dim st5) (predecessor (res ! ne))
             \<and> oc = index_to_column (wheel_dim st5) ne
             \<and> o' = recorded_row (wheel_dim st5) res 0 path
             \<and> pc = recorded_column (wheel_dim st5) res 0 path
             \<and> find_zero_column st5 p bw 0 = Inr zc
             \<and> find_zero_row st1 pc bh 0 = Inr z
             \<and> z < bh \<and> o' < bh \<and> bh \<le> p \<and> p < m_size1 (permuted_matrix st5) \<and> z \<noteq> o'
             \<and> zc < bw \<and> oc < bw \<and> bw \<le> pc \<and> pc < m_size2 (permuted_matrix st5) \<and> zc \<noteq> oc
             \<and> entry st1 o' oc = 1 \<and> entry st1 o' zc = 1 \<and> entry st1 o' pc = 1
             \<and> entry st1 z oc = 1 \<and> entry st1 z zc = 1 \<and> entry st1 z pc = 0
             \<and> entry st1 p oc = 1 \<and> entry st1 p zc = 0 \<and> entry st1 p pc = 1
             \<and> (\<forall>i<3. \<forall>j<3. entry (move_w3 st1 z o' p zc oc pc) i j
                   = entry st1 ([z, o', p] ! i) ([zc, oc, pc] ! j))))"
proof -
  from grow_block_bounds[OF wf g] have wf5: "well_formed st5"
    and bh: "2 \<le> bh" "bh \<le> m_size1 (permuted_matrix st5)"
    and bw: "2 \<le> bw" "bw \<le> m_size2 (permuted_matrix st5)" by simp_all
  from well_formed_lengths[OF wf5]
  have l1: "length (m_perm1 (permuted_matrix st5)) = m_size1 (permuted_matrix st5)"
    and l2: "length (m_perm2 (permuted_matrix st5)) = m_size2 (permuted_matrix st5)" by simp_all
  have pair: "wheel_search bfs st5 bh bw = (True, res)"
    using found by (simp add: res_def prod_eq_iff)
  from sc have c: "bfs_correct (modified_matrix st5 bh bw) (wheel_dim st5)
              (wheel_start_nodes st5 bh) (wheel_end_nodes st5 bw) (True, res)"
    by (simp add: search_correct_def pair)
  have "find_wheel_minor bfs st = extract_wheel (wheel_dim st5) res st5 bh bw (wheel_end_nodes st5 bw)"
    using find_wheel_minor_Block[OF g, of bfs] bfs_correct_length[OF c] found
    by (simp add: res_def)
  with extract_wheel_run[OF l1 l2 bh bw c] show ?thesis
    by (simp add: ne_def nd_def)
qed

lemma separation_not_empty:
  "separation1 (1, 0) \<noteq> separation_empty" "separation1 (1, 1) \<noteq> separation_empty"
  "separation2 sp w \<noteq> separation_empty"
  by (simp_all add: separation1_def separation2_def separation_empty_def)

lemma grow_block_Separated:
  "grow_block st = Inr (Separated sep st') \<Longrightarrow> sep \<noteq> separation_empty"
  unfolding grow_block_def Let_def
  by (auto simp: separation1_def separation2_def separation_empty_def split: if_splits)

lemma find_wheel_minor_empty:
  assumes "find_wheel_minor bfs st = Some (Inr (separation_empty, st'))"
  shows "\<exists>st5 bh bw. grow_block st = Inr (Block st5 bh bw) \<and> fst (wheel_search bfs st5 bh bw)"
proof (cases "grow_block st")
  case (Inl e)
  with assms show ?thesis by (simp add: find_wheel_minor_def)
next
  case (Inr b)
  show ?thesis
  proof (cases b)
    case (Separated sep st'')
    with Inr assms grow_block_Separated[of st sep st''] show ?thesis
      by (simp add: find_wheel_minor_def)
  next
    case (Block st5 bh bw)
    with Inr have g: "grow_block st = Inr (Block st5 bh bw)" by simp
    have "fst (wheel_search bfs st5 bh bw)"
    proof (rule ccontr)
      assume "\<not> fst (wheel_search bfs st5 bh bw)"
      with assms find_wheel_minor_Block[OF g, of bfs] show False
        by (auto simp: no_path_separation_def Let_def separation_not_empty split: if_splits)
    qed
    with g show ?thesis by blast
  qed
qed

lemma demo_wf: "well_formed demo_wheel"
  by (simp add: well_formed_def demo_wheel_def upt_conv_Cons numeral_2_eq_2 numeral_3_eq_3)

lemma demo_grow: "grow_block demo_wheel = Inr (Block demo_block 2 2)"
  by (simp add: grow_block_def demo_wheel_def demo_block_def Let_def matroid_reorder_columns_def
     matroid_reorder_rows_def reorder_def matrix_count_property_column_series_def
     matrix_count_property_row_series_def entry_def is_non_zero_def is_all_ones_def
     pivot_and_record_def upt_conv_Cons sort_key_def)

lemma demo_search: "search_correct demo_bfs demo_block 2 2"
  by code_simp

lemma demo_found: "fst (wheel_search demo_bfs demo_block 2 2)"
  by (simp add: wheel_search_def demo_bfs_def)

lemma demo_contract:
  "\<forall>st5 bh bw. grow_block demo_wheel = Inr (Block st5 bh bw) \<longrightarrow> search_correct demo_bfs st5 bh bw"
  by (simp add: demo_grow demo_search)

lemma demo_walk:
  "walk_back (wheel_dim demo_block) demo_nodes 6 5 2 demo_block 0 0
     = Some (Inr (pivot_and_record demo_block (3, 3), 1, 2))"
  apply (subst walk_back.simps, simp add: demo_nodes_def pivot_condition_def wheel_dim_def
      demo_block_def demo_wheel_def is_column_def is_row_def index_to_column_def index_to_row_def
      indexes_to_coordinates_def)+
  done

lemmas demo_wheel_defs = demo_block_def demo_wheel_def entry_def pivot_and_record_def
  matroid_binary_pivot_def binary_pivot_data_def Let_def

lemma demo_zero_column: "find_zero_column demo_block 2 2 0 = Inr 0"
  by (subst find_zero_column.simps) (simp add: demo_wheel_defs)

lemma demo_zero_row: "find_zero_row (pivot_and_record demo_block (3, 3)) 2 2 0 = Inr 0"
  by (subst find_zero_row.simps) (simp add: demo_wheel_defs)

lemma demo_entries:
  "entry (pivot_and_record demo_block (3, 3)) 1 1 = 1"
  "entry (pivot_and_record demo_block (3, 3)) 1 0 = 1"
  "entry (pivot_and_record demo_block (3, 3)) 1 2 = 1"
  "entry (pivot_and_record demo_block (3, 3)) 0 1 = 1"
  "entry (pivot_and_record demo_block (3, 3)) 0 0 = 1"
  "entry (pivot_and_record demo_block (3, 3)) 0 2 = 0"
  "entry (pivot_and_record demo_block (3, 3)) 2 1 = 1"
  "entry (pivot_and_record demo_block (3, 3)) 2 0 = 0"
  "entry (pivot_and_record demo_block (3, 3)) 2 2 = 1"
  by (simp_all add: demo_wheel_defs)

lemma demo_run: "find_wheel_minor demo_bfs demo_wheel = Some (Inr (separation_empty, demo_minor))"
proof -
  have s: "wheel_search demo_bfs demo_block 2 2 = (True, demo_nodes)"
    by (simp add: wheel_search_def demo_bfs_def)
  have d: "wheel_dim demo_block = \<lparr>height = 4, width = 4\<rparr>"
    by (simp add: wheel_dim_def demo_block_def demo_wheel_def)
  have e: "wheel_end_nodes demo_block 2 = [4, 5]"
    by (simp add: wheel_end_nodes_def d column_to_index_def upt_conv_Cons)
  have n: "length demo_nodes = 8" "distance (demo_nodes ! 4) = - 2"
    "distance (demo_nodes ! 5) = 5" "predecessor (demo_nodes ! 5) = 2"
    by (simp_all add: demo_nodes_def)
  have "extract_wheel \<lparr>height = 4, width = 4\<rparr> demo_nodes demo_block 2 2 [4, 5]
          = Some (Inr (separation_empty, demo_minor))"
    unfolding extract_wheel_def
    by (simp add: n demo_walk[unfolded d] is_reachable_def
        index_to_column_def index_to_row_def demo_zero_column demo_zero_row demo_entries
        demo_entries[unfolded One_nat_def] demo_minor_def)
  then show ?thesis
    unfolding find_wheel_minor_Block[OF demo_grow] s e
    by (simp add: n d)
qed

text \<open>
  Claim C9. When \<^verbatim>\<open>find_wheel_minor\<close> returns the empty separation, the entries of
  the rows 0, 1, 2 and the columns 0, 1, 2 of the permuted matrix are 1, but for the
  entries (0,2) and (2,0), which are 0.
\<close>

theorem w3_top_left:
  assumes wf: "well_formed st"
    and sc: "\<forall>st5 bh bw. grow_block st = Inr (Block st5 bh bw) \<longrightarrow> search_correct bfs st5 bh bw"
    and r: "find_wheel_minor bfs st = Some (Inr (separation_empty, st'))"
  shows "entry st' 0 0 = 1 \<and> entry st' 0 1 = 1 \<and> entry st' 0 2 = 0
       \<and> entry st' 1 0 = 1 \<and> entry st' 1 1 = 1 \<and> entry st' 1 2 = 1
       \<and> entry st' 2 0 = 0 \<and> entry st' 2 1 = 1 \<and> entry st' 2 2 = 1"
proof -
  from find_wheel_minor_empty[OF r] obtain st5 bh bw where
    g: "grow_block st = Inr (Block st5 bh bw)" and f: "fst (wheel_search bfs st5 bh bw)" by blast
  from sc g have s: "search_correct bfs st5 bh bw" by blast
  from find_wheel_minor_found[OF wf g s f]
  obtain r0 where r0: "find_wheel_minor bfs st = Some r0"
    and d: "r0 = Inl AssertFailed \<or> (\<exists>st1 z o' p zc oc pc.
               r0 = Inr (separation_empty, move_w3 st1 z o' p zc oc pc)
             \<and> (entry st1 o' oc = 1 \<and> entry st1 o' zc = 1 \<and> entry st1 o' pc = 1
             \<and> entry st1 z oc = 1 \<and> entry st1 z zc = 1 \<and> entry st1 z pc = 0
             \<and> entry st1 p oc = 1 \<and> entry st1 p zc = 0 \<and> entry st1 p pc = 1)
             \<and> (\<forall>i<3. \<forall>j<3. entry (move_w3 st1 z o' p zc oc pc) i j
                   = entry st1 ([z, o', p] ! i) ([zc, oc, pc] ! j)))"
    by (elim exE conjE disjE) blast+
  from r r0 have "r0 = Inr (separation_empty, st')" by simp
  with d obtain st1 z o' p zc oc pc where
    st': "st' = move_w3 st1 z o' p zc oc pc"
    and e: "entry st1 o' oc = 1 \<and> entry st1 o' zc = 1 \<and> entry st1 o' pc = 1
             \<and> entry st1 z oc = 1 \<and> entry st1 z zc = 1 \<and> entry st1 z pc = 0
             \<and> entry st1 p oc = 1 \<and> entry st1 p zc = 0 \<and> entry st1 p pc = 1"
    and mv: "\<forall>i<3. \<forall>j<3. entry (move_w3 st1 z o' p zc oc pc) i j
                   = entry st1 ([z, o', p] ! i) ([zc, oc, pc] ! j)"
    by auto
  have m: "\<And>i j. i < 3 \<Longrightarrow> j < 3 \<Longrightarrow> entry st' i j = entry st1 ([z, o', p] ! i) ([zc, oc, pc] ! j)"
    using mv st' by blast
  show ?thesis
    using m[of 0 0] m[of 0 1] m[of 0 2] m[of 1 0] m[of 1 1] m[of 1 2] m[of 2 0] m[of 2 1] m[of 2 2] e
    by simp
qed


theorem w3_top_left_witness:
  "well_formed demo_wheel \<and> grow_block demo_wheel = Inr (Block demo_block 2 2)
   \<and> search_correct demo_bfs demo_block 2 2
   \<and> find_wheel_minor demo_bfs demo_wheel = Some (Inr (separation_empty, demo_minor))
   \<and> entry demo_minor 0 0 = 1 \<and> entry demo_minor 0 1 = 1 \<and> entry demo_minor 0 2 = 0
   \<and> entry demo_minor 1 0 = 1 \<and> entry demo_minor 1 1 = 1 \<and> entry demo_minor 1 2 = 1
   \<and> entry demo_minor 2 0 = 0 \<and> entry demo_minor 2 1 = 1 \<and> entry demo_minor 2 2 = 1"
  using w3_top_left[OF demo_wf demo_contract demo_run] demo_wf demo_grow demo_search demo_run
  by (intro conjI) (elim conjE, assumption)+

lemma sorted_filter_takeWhile:
  assumes "sorted (map f xs)"
    and "\<And>x y. x \<in> set xs \<Longrightarrow> y \<in> set xs \<Longrightarrow> f x \<le> f y \<Longrightarrow> P y \<Longrightarrow> P x"
  shows "filter P xs = takeWhile P xs"
  using assms
proof (induction xs)
  case Nil
  show ?case by simp
next
  case (Cons x xs)
  from Cons.prems(1) have s: "sorted (map f xs)" and le: "\<forall>y\<in>set xs. f x \<le> f y" by simp_all
  have c: "\<And>a b. a \<in> set xs \<Longrightarrow> b \<in> set xs \<Longrightarrow> f a \<le> f b \<Longrightarrow> P b \<Longrightarrow> P a"
    using Cons.prems(2) by (meson list.set_intros(2))
  show ?case
  proof (cases "P x")
    case True
    with Cons.IH[OF s c] show ?thesis by simp
  next
    case False
    have "\<forall>y\<in>set xs. \<not> P y"
    proof
      fix y assume y: "y \<in> set xs"
      with le have "f x \<le> f y" by blast
      with Cons.prems(2)[of x y] y False show "\<not> P y" by auto
    qed
    then have "filter P xs = []" by (simp add: filter_empty_conv)
    with False show ?thesis by simp
  qed
qed

lemma sorted_nth_filter:
  assumes s: "sorted (map f xs)"
    and c: "\<And>x y. x \<in> set xs \<Longrightarrow> y \<in> set xs \<Longrightarrow> f x \<le> f y \<Longrightarrow> P y \<Longrightarrow> P x"
    and i: "i < length xs"
  shows "i < length (filter P xs) \<longleftrightarrow> P (xs ! i)"
proof -
  have eq: "filter P xs = takeWhile P xs" by (rule sorted_filter_takeWhile[OF s c])
  show ?thesis
  proof
    assume a: "i < length (filter P xs)"
    then have "takeWhile P xs ! i \<in> set (takeWhile P xs)" by (simp add: eq)
    then have "P (takeWhile P xs ! i)" by (rule set_takeWhileD[THEN conjunct2])
    with a show "P (xs ! i)" by (simp add: eq takeWhile_nth)
  next
    assume p: "P (xs ! i)"
    show "i < length (filter P xs)"
    proof (rule ccontr)
      assume "\<not> i < length (filter P xs)"
      then have k: "length (takeWhile P xs) \<le> i" by (simp add: eq)
      with i have kl: "length (takeWhile P xs) < length xs" by simp
      then have n: "\<not> P (xs ! length (takeWhile P xs))" by (rule nth_length_takeWhile)
      from s k i have "map f xs ! length (takeWhile P xs) \<le> map f xs ! i"
        by (intro sorted_nth_mono) simp_all
      with kl i have "f (xs ! length (takeWhile P xs)) \<le> f (xs ! i)" by simp
      from c[OF _ _ this p] kl i n show False by simp
    qed
  qed
qed

lemma fold_update_length:
  "length (fold (\<lambda>i r. r[g i := f i]) is r0) = length r0"
  by (induction "is" arbitrary: r0) simp_all

lemma fold_update_nth:
  assumes d: "distinct perm" and b: "\<forall>i<length perm. perm ! i < length r0"
  shows "m \<le> length perm \<Longrightarrow> k < m \<Longrightarrow>
     fold (\<lambda>i r. r[perm ! i := f i]) [0..<m] r0 ! (perm ! k) = f k"
proof (induction m arbitrary: k)
  case 0
  then show ?case by simp
next
  case (Suc m)
  let ?r = "fold (\<lambda>i r. r[perm ! i := f i]) [0..<m] r0"
  have l: "length ?r = length r0" by (rule fold_update_length)
  have e: "fold (\<lambda>i r. r[perm ! i := f i]) [0..<Suc m] r0 = ?r[perm ! m := f m]" by simp
  show ?case
  proof (cases "k = m")
    case True
    with Suc.prems b l show ?thesis unfolding e by simp
  next
    case False
    with Suc.prems have km: "k < m" by simp
    from Suc.prems km d have "perm ! k \<noteq> perm ! m" by (simp add: nth_eq_iff_index_eq)
    with Suc.IH[OF _ km] Suc.prems show ?thesis unfolding e by simp
  qed
qed

lemma sorted_positions:
  assumes p: "mset perm = mset [0..<n]"
    and r: "\<And>k. k < n \<Longrightarrow> R ! (perm ! k) = f k"
    and i: "i < n"
  shows "\<exists>i0<n. sort_key (\<lambda>v. R ! v) perm ! i = perm ! i0
           \<and> (\<forall>t::int. i < length (filter (\<lambda>k. f k < t) [0..<n]) \<longleftrightarrow> f i0 < t)"
proof -
  let ?key = "\<lambda>v. R ! v"
  let ?perm' = "sort_key ?key perm"
  from p have len: "length perm = n" by (metis length_upt mset_eq_length diff_zero)
  have len': "length ?perm' = n" using len by simp
  from i len' have "?perm' ! i \<in> set ?perm'" by (simp del: set_sort)
  then have "?perm' ! i \<in> set perm" by simp
  then obtain i0 where i0: "i0 < n" "perm ! i0 = ?perm' ! i" using len by (auto simp: in_set_conv_nth)
  have key: "?key (?perm' ! i) = f i0" using r[OF i0(1)] i0(2) by simp
  have cnt: "length (filter (\<lambda>v. ?key v < t) ?perm') = length (filter (\<lambda>k. f k < t) [0..<n])" for t
  proof -
    have "mset (filter (\<lambda>v. ?key v < t) ?perm') = mset (filter (\<lambda>v. ?key v < t) perm)"
      by simp
    then have "length (filter (\<lambda>v. ?key v < t) ?perm') = length (filter (\<lambda>v. ?key v < t) perm)"
      by (rule mset_eq_length)
    also have "perm = map ((!) perm) [0..<n]" unfolding len[symmetric] by (simp add: map_nth)
    then have "filter (\<lambda>v. ?key v < t) perm = filter (\<lambda>v. ?key v < t) (map ((!) perm) [0..<n])"
      by simp
    also have "length \<dots> = length (filter (\<lambda>k. ?key (perm ! k) < t) [0..<n])"
      by (simp add: filter_map comp_def)
    also have "filter (\<lambda>k. ?key (perm ! k) < t) [0..<n] = filter (\<lambda>k. f k < t) [0..<n]"
      by (rule filter_cong) (simp_all add: r)
    finally show ?thesis .
  qed
  have "\<forall>t. i < length (filter (\<lambda>k. f k < t) [0..<n]) \<longleftrightarrow> f i0 < t"
  proof
    fix t :: int
    have "i < length (filter (\<lambda>v. ?key v < t) ?perm') \<longleftrightarrow> ?key (?perm' ! i) < t"
      by (rule sorted_nth_filter[where f = ?key]) (use i len' in auto)
    then show "i < length (filter (\<lambda>k. f k < t) [0..<n]) \<longleftrightarrow> f i0 < t"
      unfolding cnt key .
  qed
  with i0 show ?thesis by metis
qed

lemma takeWhile_upt_holds:
  assumes "cf \<le> c" and "c < cf + length (takeWhile P [cf..<cb])"
  shows "P c"
proof -
  let ?t = "takeWhile P [cf..<cb]"
  have le: "length ?t \<le> cb - cf" by (metis length_takeWhile_le length_upt)
  from assms have j: "c - cf < length ?t" by simp
  then have "?t ! (c - cf) \<in> set ?t" by simp
  then have "P (?t ! (c - cf))" by (rule set_takeWhileD[THEN conjunct2])
  moreover have "?t ! (c - cf) = [cf..<cb] ! (c - cf)" using j by (rule takeWhile_nth)
  moreover have "[cf..<cb] ! (c - cf) = c" using assms le by simp
  ultimately show ?thesis by simp
qed

lemma entry_reorder_columns:
  assumes "j < length (m_perm2 (permuted_matrix st))"
  shows "entry (matroid_reorder_columns st rf rb cf cb) i j =
     entry st i (reorder (\<lambda>c. map (\<lambda>r. - entry st r c) [rf..<rb]) cf cb
                   (length (m_perm2 (permuted_matrix st))) ! j)"
  using assms by (simp add: entry_def reorder_columns_fields)

lemma entry_reorder_rows:
  assumes "i < length (m_perm1 (permuted_matrix st))"
  shows "entry (matroid_reorder_rows st rf rb cf cb) i j =
     entry st (reorder (\<lambda>r. map (\<lambda>c. - entry st r c) [cf..<cb]) rf rb
                   (length (m_perm1 (permuted_matrix st))) ! i) j"
  using assms by (simp add: entry_def reorder_rows_fields)

lemma entry_reorder_columns_before:
  "j < cf \<Longrightarrow> j < length (m_perm2 (permuted_matrix st)) \<Longrightarrow>
     entry (matroid_reorder_columns st rf rb cf cb) i j = entry st i j"
  by (simp add: entry_reorder_columns reorder_nth_before)

lemma entry_reorder_rows_before:
  "i < rf \<Longrightarrow> i < length (m_perm1 (permuted_matrix st)) \<Longrightarrow>
     entry (matroid_reorder_rows st rf rb cf cb) i j = entry st i j"
  by (simp add: entry_reorder_rows reorder_nth_before)

lemma is_all_ones_upt: "is_all_ones (map f [a..<b]) \<longleftrightarrow> (\<forall>k. a \<le> k \<and> k < b \<longrightarrow> f k = 1)"
  by (auto simp: is_all_ones_def list_all_iff)

lemma well_formed_grow_block:
  assumes wf: "well_formed st" and g: "grow_block st = Inr (Block st5 bh bw)"
  shows "\<exists>st3 st4. well_formed st3 \<and> well_formed st4 \<and> well_formed st5
     \<and> 3 \<le> m_size1 (permuted_matrix st3) \<and> 3 \<le> m_size2 (permuted_matrix st3)
     \<and> entry st3 0 0 = 1 \<and> entry st3 1 0 = 1 \<and> entry st3 0 1 = 1 \<and> entry st3 1 1 = 1
     \<and> st4 = matroid_reorder_columns st3 0 2 2 (m_size2 (permuted_matrix st3))
     \<and> bw = 2 + matrix_count_property_column_series st4 0 2 2 (m_size2 (permuted_matrix st3)) is_all_ones
     \<and> st5 = matroid_reorder_rows st4 2 (m_size1 (permuted_matrix st3)) 0 bw
     \<and> bh = 2 + matrix_count_property_row_series st5 2 (m_size1 (permuted_matrix st3)) 0 bw is_all_ones
     \<and> (\<exists>st2. well_formed st2 \<and> m_data (permuted_matrix st2) = m_data (permuted_matrix st)
            \<and> st3 = (if entry st2 1 1 \<noteq> 1 then pivot_and_record st2 (0, 0) else st2))"
proof -
  from grow_block_Block[OF g] obtain st1 st2 st3 st4 where
    s: "3 \<le> m_size1 (permuted_matrix st)" "3 \<le> o_size2 (permuted_matroid st)"
    and st1: "st1 = matroid_reorder_columns st 0 1 0 (o_size2 (permuted_matroid st))"
    and st2: "st2 = matroid_reorder_rows st1 1 (o_size1 (permuted_matroid st1)) 0 1"
    and st3: "st3 = (if entry st2 1 1 \<noteq> 1 then pivot_and_record st2 (0, 0) else st2)"
    and e: "entry st3 0 0 = 1" "entry st3 1 0 = 1" "entry st3 0 1 = 1" "entry st3 1 1 = 1"
    and st4: "st4 = matroid_reorder_columns st3 0 2 2 (o_size2 (permuted_matroid st3))"
    and bw: "bw = 2 + matrix_count_property_column_series st4 0 2 2 (m_size2 (permuted_matrix st4)) is_all_ones"
    and st5: "st5 = matroid_reorder_rows st4 2 (o_size1 (permuted_matroid st4)) 0 bw"
    and bh: "bh = 2 + matrix_count_property_row_series st5 2 (m_size1 (permuted_matrix st5)) 0 bw is_all_ones"
    by blast
  have wf1: "well_formed st1" unfolding st1 by (rule well_formed_reorder_columns[OF wf])
  have wf2: "well_formed st2" unfolding st2 by (rule well_formed_reorder_rows[OF wf1])
  have wf3: "well_formed st3" unfolding st3 using wf2 by (simp add: well_formed_pivot)
  have wf4: "well_formed st4" unfolding st4 by (rule well_formed_reorder_columns[OF wf3])
  have wf5: "well_formed st5" unfolding st5 by (rule well_formed_reorder_rows[OF wf4])
  have d2: "m_data (permuted_matrix st2) = m_data (permuted_matrix st)"
    by (simp add: st2 st1 reorder_rows_fields reorder_columns_fields)
  have sz: "m_size1 (permuted_matrix st3) = m_size1 (permuted_matrix st)"
    "m_size2 (permuted_matrix st3) = m_size2 (permuted_matrix st)"
    by (simp_all add: st3 st2 st1 reorder_frame pivot_and_record_frame)
  have o3: "o_size2 (permuted_matroid st3) = m_size2 (permuted_matrix st3)"
    "o_size1 (permuted_matroid st4) = m_size1 (permuted_matrix st3)"
    "m_size2 (permuted_matrix st4) = m_size2 (permuted_matrix st3)"
    "m_size1 (permuted_matrix st5) = m_size1 (permuted_matrix st3)"
    using wf3 wf4 by (simp_all add: well_formed_def st4 st5 reorder_frame)
  from wf s have s3: "3 \<le> m_size1 (permuted_matrix st3)" "3 \<le> m_size2 (permuted_matrix st3)"
    by (simp_all add: sz well_formed_def)
  show ?thesis
    apply (rule exI[of _ st3], rule exI[of _ st4])
    apply (intro conjI)
                apply (rule wf3 wf4 wf5 s3 e st4[unfolded o3] bw[unfolded o3] st5[unfolded o3]
        bh[unfolded o3])+
    apply (rule exI[of _ st2])
    apply (intro conjI)
      apply (rule wf2 d2 st3)+
    done
qed

lemma grow_block_ones:
  assumes wf: "well_formed st" and g: "grow_block st = Inr (Block st5 bh bw)"
  shows "i < bh \<Longrightarrow> j < bw \<Longrightarrow> entry st5 i j = 1"
proof -
  assume i: "i < bh" and j: "j < bw"
  from well_formed_grow_block[OF wf g] obtain st3 st4 where
    wf3: "well_formed st3" and wf4: "well_formed st4" and wf5: "well_formed st5"
    and s3: "3 \<le> m_size1 (permuted_matrix st3)" "3 \<le> m_size2 (permuted_matrix st3)"
    and e: "entry st3 0 0 = 1" "entry st3 1 0 = 1" "entry st3 0 1 = 1" "entry st3 1 1 = 1"
    and st4: "st4 = matroid_reorder_columns st3 0 2 2 (m_size2 (permuted_matrix st3))"
    and bw: "bw = 2 + matrix_count_property_column_series st4 0 2 2 (m_size2 (permuted_matrix st3)) is_all_ones"
    and st5: "st5 = matroid_reorder_rows st4 2 (m_size1 (permuted_matrix st3)) 0 bw"
    and bh: "bh = 2 + matrix_count_property_row_series st5 2 (m_size1 (permuted_matrix st3)) 0 bw is_all_ones"
    by blast
  from well_formed_lengths[OF wf3] have l3: "length (m_perm1 (permuted_matrix st3)) = m_size1 (permuted_matrix st3)"
    "length (m_perm2 (permuted_matrix st3)) = m_size2 (permuted_matrix st3)" by simp_all
  have l4: "length (m_perm1 (permuted_matrix st4)) = m_size1 (permuted_matrix st3)"
    using l3 by (simp add: st4 reorder_columns_fields)
  have b4: "entry st4 r c = entry st3 r c" if "c < 2" for r c
    unfolding st4 using that s3 l3 by (intro entry_reorder_columns_before) simp_all
  have ones4: "entry st4 r c = 1" if "r < 2" "c < bw" for r c
  proof (cases "c < 2")
    case True
    from that(1) True have "(r = 0 \<or> r = 1) \<and> (c = 0 \<or> c = 1)" by auto
    with e show ?thesis by (auto simp: b4)
  next
    case False
    then have "2 \<le> c" by simp
    moreover from that(2) have "c < 2 + length (takeWhile (\<lambda>c. is_all_ones (map (\<lambda>r. entry st4 r c) [0..<2]))
                                         [2..<m_size2 (permuted_matrix st3)])"
      by (simp add: bw matrix_count_property_column_series_def)
    ultimately have "is_all_ones (map (\<lambda>r. entry st4 r c) [0..<2])"
      by (rule takeWhile_upt_holds)
    with that(1) show ?thesis by (simp add: is_all_ones_upt)
  qed
  have b5: "entry st5 r c = entry st4 r c" if "r < 2" for r c
    unfolding st5 using that s3 l4 by (intro entry_reorder_rows_before) simp_all
  show "entry st5 i j = 1"
  proof (cases "i < 2")
    case True
    with ones4[OF True j] show ?thesis by (simp add: b5)
  next
    case False
    then have "2 \<le> i" by simp
    moreover from i have "i < 2 + length (takeWhile (\<lambda>r. is_all_ones (map (\<lambda>c. entry st5 r c) [0..<bw]))
                                         [2..<m_size1 (permuted_matrix st3)])"
      by (simp add: bh matrix_count_property_row_series_def)
    ultimately have "is_all_ones (map (\<lambda>c. entry st5 r c) [0..<bw])" if "r = i" for r
      using that takeWhile_upt_holds[of 2 i "\<lambda>r. is_all_ones (map (\<lambda>c. entry st5 r c) [0..<bw])"]
      by simp
    with j show ?thesis by (simp add: is_all_ones_upt)
  qed
qed

lemma count_split:
  fixes f :: "nat \<Rightarrow> int"
  assumes "\<And>k. k < n \<Longrightarrow> (f k < 2 \<longleftrightarrow> f k < 1 \<or> k < m)"
    and "\<And>k. k < m \<Longrightarrow> \<not> f k < 1" and "m \<le> n"
  shows "length (filter (\<lambda>k. f k < 2) [0..<n]) = length (filter (\<lambda>k. f k < 1) [0..<n]) + m"
proof -
  have "{i. i < n \<and> f i < 2} = {i. i < n \<and> f i < 1} \<union> {i. i < m}"
    using assms by auto
  moreover have "{i. i < n \<and> f i < 1} \<inter> {i. i < m} = {}" using assms(2) by auto
  ultimately have "card {i. i < n \<and> f i < 2} = card {i. i < n \<and> f i < 1} + card {i. i < m}"
    by (simp add: card_Un_disjoint)
  moreover have "length (filter p [0..<n]) = card {i. i < n \<and> p i}" for p
    by (simp add: length_filter_conv_card cong: conj_cong)
  ultimately show ?thesis by simp
qed

lemma no_path_fields:
  "m_data (permuted_matrix (snd (no_path_separation dim res st))) = m_data (permuted_matrix st)"
  "m_size1 (permuted_matrix (snd (no_path_separation dim res st))) = m_size1 (permuted_matrix st)"
  "m_size2 (permuted_matrix (snd (no_path_separation dim res st))) = m_size2 (permuted_matrix st)"
  "o_size1 (permuted_matroid (snd (no_path_separation dim res st))) = o_size1 (permuted_matroid st)"
  "o_size2 (permuted_matroid (snd (no_path_separation dim res st))) = o_size2 (permuted_matroid st)"
  "o_perm1 (permuted_matroid (snd (no_path_separation dim res st)))
     = m_perm1 (permuted_matrix (snd (no_path_separation dim res st)))"
  "o_perm2 (permuted_matroid (snd (no_path_separation dim res st)))
     = m_perm2 (permuted_matrix (snd (no_path_separation dim res st)))"
  "mset (m_perm1 (permuted_matrix (snd (no_path_separation dim res st)))) = mset (m_perm1 (permuted_matrix st))"
  "mset (m_perm2 (permuted_matrix (snd (no_path_separation dim res st)))) = mset (m_perm2 (permuted_matrix st))"
  by (simp_all add: no_path_separation_def Let_def)

lemma no_path_split:
  "sep_split (fst (no_path_separation dim res st)) =
     (length (filter (\<lambda>i. row_value dim res i < 1) [0..<m_size1 (permuted_matrix st)]),
      length (filter (\<lambda>j. column_value dim res j < 2) [0..<m_size2 (permuted_matrix st)]))"
  "sep_witnesses (fst (no_path_separation dim res st)) =
     [(length (filter (\<lambda>i. row_value dim res i < 1) [0..<m_size1 (permuted_matrix st)]),
       (length (filter (\<lambda>j. column_value dim res j < 2) [0..<m_size2 (permuted_matrix st)])
          + (2 ^ 64 - 1)) mod 2 ^ 64)]"
proof -
  have "(\<lambda>i. row_value dim res i = 0) = (\<lambda>i. row_value dim res i < 1)"
    by (auto simp: row_value_def Let_def)
  then show "sep_split (fst (no_path_separation dim res st)) =
     (length (filter (\<lambda>i. row_value dim res i < 1) [0..<m_size1 (permuted_matrix st)]),
      length (filter (\<lambda>j. column_value dim res j < 2) [0..<m_size2 (permuted_matrix st)]))"
    "sep_witnesses (fst (no_path_separation dim res st)) =
     [(length (filter (\<lambda>i. row_value dim res i < 1) [0..<m_size1 (permuted_matrix st)]),
       (length (filter (\<lambda>j. column_value dim res j < 2) [0..<m_size2 (permuted_matrix st)])
          + (2 ^ 64 - 1)) mod 2 ^ 64)]"
    by (simp_all add: no_path_separation_def Let_def separation2_def)
qed

lemma no_path_rows:
  assumes wf: "well_formed st" and i: "i < m_size1 (permuted_matrix st)"
  shows "\<exists>i0<m_size1 (permuted_matrix st).
           m_perm1 (permuted_matrix (snd (no_path_separation dim res st))) ! i = m_perm1 (permuted_matrix st) ! i0
         \<and> (\<forall>t. i < length (filter (\<lambda>k. row_value dim res k < t) [0..<m_size1 (permuted_matrix st)])
                  \<longleftrightarrow> row_value dim res i0 < t)"
proof -
  let ?n = "m_size1 (permuted_matrix st)"
  let ?perm = "m_perm1 (permuted_matrix st)"
  let ?R = "fold (\<lambda>i r. r[?perm ! i := row_value dim res i]) [0..<?n] (replicate ?n 0)"
  from wf have p: "mset ?perm = mset [0..<?n]" by (simp add: well_formed_def)
  from well_formed_lengths[OF wf] have len: "length ?perm = ?n" by simp
  from p have d: "distinct ?perm" by (metis distinct_upt mset_eq_imp_distinct_iff)
  from p have s: "set ?perm = {0..<?n}" by (metis mset_eq_setD set_upt)
  have b: "\<forall>i<length ?perm. ?perm ! i < length (replicate ?n (0::int))"
    using s len nth_mem[of _ ?perm] by auto
  have r: "?R ! (?perm ! k) = row_value dim res k" if "k < ?n" for k
    using fold_update_nth[OF d b, of ?n k "row_value dim res"] that len by simp
  have e: "m_perm1 (permuted_matrix (snd (no_path_separation dim res st))) = sort_key (\<lambda>v. ?R ! v) ?perm"
    by (simp add: no_path_separation_def Let_def)
  show ?thesis unfolding e by (rule sorted_positions[OF p r i])
qed

lemma no_path_columns:
  assumes wf: "well_formed st" and j: "j < m_size2 (permuted_matrix st)"
  shows "\<exists>j0<m_size2 (permuted_matrix st).
           m_perm2 (permuted_matrix (snd (no_path_separation dim res st))) ! j = m_perm2 (permuted_matrix st) ! j0
         \<and> (\<forall>t. j < length (filter (\<lambda>k. column_value dim res k < t) [0..<m_size2 (permuted_matrix st)])
                  \<longleftrightarrow> column_value dim res j0 < t)"
proof -
  let ?n1 = "m_size1 (permuted_matrix st)"
  let ?n = "m_size2 (permuted_matrix st)"
  let ?perm = "m_perm2 (permuted_matrix st)"
  let ?R1 = "fold (\<lambda>i r. r[m_perm1 (permuted_matrix st) ! i := row_value dim res i]) [0..<?n1] (replicate ?n1 0)"
  let ?r0 = "take ?n ?R1 @ replicate (?n - ?n1) 0"
  let ?R = "fold (\<lambda>i r. r[?perm ! i := column_value dim res i]) [0..<?n] ?r0"
  have l1: "length ?R1 = ?n1" by (simp add: fold_update_length)
  have l0: "length ?r0 = ?n" by (simp add: l1)
  from wf have p: "mset ?perm = mset [0..<?n]" by (simp add: well_formed_def)
  from well_formed_lengths[OF wf] have len: "length ?perm = ?n" by simp
  from p have d: "distinct ?perm" by (metis distinct_upt mset_eq_imp_distinct_iff)
  from p have s: "set ?perm = {0..<?n}" by (metis mset_eq_setD set_upt)
  have b: "\<forall>i<length ?perm. ?perm ! i < length ?r0"
    unfolding l0 using s len nth_mem[of _ ?perm] by auto
  have r: "?R ! (?perm ! k) = column_value dim res k" if "k < ?n" for k
    using fold_update_nth[OF d b, of ?n k "column_value dim res"] that len by simp
  have e: "m_perm2 (permuted_matrix (snd (no_path_separation dim res st))) = sort_key (\<lambda>v. ?R ! v) ?perm"
    by (simp add: no_path_separation_def Let_def)
  show ?thesis unfolding e by (rule sorted_positions[OF p r j])
qed

lemma wrap_pred:
  fixes b N :: nat
  assumes "1 \<le> b" and "b - 1 < N"
  shows "(b + (N - 1)) mod N = b - 1"
proof -
  have "b + (N - 1) = (b - 1) + N" using assms by linarith
  then have "(b + (N - 1)) mod N = (b - 1) mod N" by (simp only: mod_add_self2)
  with assms(2) show ?thesis by simp
qed

lemma no_path_certificate:
  assumes wf: "well_formed st"
    and bh: "2 \<le> bh" "bh \<le> m_size1 (permuted_matrix st)"
    and bw: "2 \<le> bw" "bw \<le> m_size2 (permuted_matrix st)"
    and c: "bfs_correct (modified_matrix st bh bw) (wheel_dim st)
              (wheel_start_nodes st bh) (wheel_end_nodes st bw) (False, res)"
    and ones: "\<And>i j. i < bh \<Longrightarrow> j < bw \<Longrightarrow> entry st i j = 1"
    and sz: "m_size2 (permuted_matrix st) < 2 ^ 64"
  defines "a \<equiv> length (filter (\<lambda>i. \<not> is_reachable (res ! row_to_index (wheel_dim st) i))
                          [0..<m_size1 (permuted_matrix st)])"
  defines "b \<equiv> length (filter (\<lambda>j. \<not> is_reachable (res ! column_to_index (wheel_dim st) j))
                          [0..<m_size2 (permuted_matrix st)])"
  defines "st' \<equiv> snd (no_path_separation (wheel_dim st) res st)"
  shows "fst (no_path_separation (wheel_dim st) res st) = \<lparr>sep_split = (a, b), sep_witnesses = [(a, b - 1)]\<rparr>
     \<and> a + bh \<le> m_size1 (permuted_matrix st) \<and> bw \<le> b \<and> b \<le> m_size2 (permuted_matrix st)
     \<and> (\<forall>i<m_size1 (permuted_matrix st). \<exists>i0<m_size1 (permuted_matrix st).
           m_perm1 (permuted_matrix st') ! i = m_perm1 (permuted_matrix st) ! i0
         \<and> (i < a \<longleftrightarrow> \<not> is_reachable (res ! row_to_index (wheel_dim st) i0)))
     \<and> (\<forall>j<m_size2 (permuted_matrix st). \<exists>j0<m_size2 (permuted_matrix st).
           m_perm2 (permuted_matrix st') ! j = m_perm2 (permuted_matrix st) ! j0
         \<and> (j < b \<longleftrightarrow> \<not> is_reachable (res ! column_to_index (wheel_dim st) j0)))
     \<and> (\<forall>i j. i < a \<and> b \<le> j \<and> j < m_size2 (permuted_matrix st) \<longrightarrow> entry st' i j = 0)
     \<and> (\<forall>i j. a \<le> i \<and> i < m_size1 (permuted_matrix st) \<and> j < b \<longrightarrow>
           entry st' i j = (if i < a + bh \<and> b - bw \<le> j then 1 else 0))
     \<and> entry st' a (b - 1) = 1"
proof -
  let ?dim = "wheel_dim st"
  let ?M = "modified_matrix st bh bw"
  let ?n1 = "m_size1 (permuted_matrix st)"
  let ?n2 = "m_size2 (permuted_matrix st)"
  let ?starts = "wheel_start_nodes st bh"
  let ?ends = "wheel_end_nodes st bw"
  let ?rv = "row_value ?dim res"
  let ?cv = "column_value ?dim res"
  let ?cr = "\<lambda>t. length (filter (\<lambda>k. ?rv k < t) [0..<?n1])"
  let ?cc = "\<lambda>t. length (filter (\<lambda>k. ?cv k < t) [0..<?n2])"
  have h: "height ?dim = ?n1" and w: "width ?dim = ?n2" by (simp_all add: wheel_dim_def)
  have lres: "length res = ?n1 + ?n2" using bfs_correct_length[OF c] h w by simp
  have starts: "set ?starts = {0..<bh}"
    by (auto simp: wheel_start_nodes_def row_to_index_def)
  have ends: "set ?ends = {?n1..<?n1 + bw}"
    by (auto simp: wheel_end_nodes_def column_to_index_def h image_iff intro: le_Suc_ex
        intro!: bexI[of _ "x - ?n1" for x])
  have ri: "row_to_index ?dim i = i" for i by (simp add: row_to_index_def)
  have ci: "column_to_index ?dim j = ?n1 + j" for j by (simp add: column_to_index_def h)
  have R0: "distance (res ! i) = 0" if "i < bh" for i
    using bfs_correct_start[OF c, of i] that starts by simp
  have zero_start: "i < bh" if "i < ?n1" "distance (res ! i) = 0" for i
    using bfs_correct_zero[OF c, of i] that lres starts by simp
  have R1: "?rv i < 1 \<longleftrightarrow> \<not> is_reachable (res ! i)" for i
    by (simp add: row_value_def Let_def ri)
  have R2: "?rv i < 2 \<longleftrightarrow> ?rv i < 1 \<or> i < bh" if "i < ?n1" for i
    using R0[of i] zero_start[OF that]
    by (auto simp: row_value_def Let_def ri is_reachable_def)
  have C0: "\<not> is_reachable (res ! (?n1 + j))" if "j < bw" for j
  proof -
    from that ends have "?n1 + j \<in> set ?ends" by simp
    with bfs_correct_found[OF c] show ?thesis by blast
  qed
  have C1: "?cv j < 2 \<longleftrightarrow> \<not> is_reachable (res ! (?n1 + j))" for j
    by (simp add: column_value_def Let_def ci)
  have unreached: "distance (res ! (?n1 + j)) = - 2 \<longleftrightarrow> j < bw"
    if "j < ?n2" "\<not> is_reachable (res ! (?n1 + j))" for j
  proof -
    from that have "distance (res ! (?n1 + j)) < 0" by (simp add: is_reachable_def)
    from bfs_correct_unreached[OF c _ this] that(1) lres
    have "distance (res ! (?n1 + j)) = (if ?n1 + j \<in> set ?ends then - 2 else - 1)" by simp
    then show ?thesis by (simp add: ends)
  qed
  have C2: "?cv j < 1 \<longleftrightarrow> \<not> is_reachable (res ! (?n1 + j)) \<and> \<not> j < bw" if "j < ?n2" for j
    using unreached[OF that] by (auto simp: column_value_def Let_def ci)
  have C3: "?cv j < 2 \<longleftrightarrow> ?cv j < 1 \<or> j < bw" if "j < ?n2" for j
    using C2[OF that] C0[of j] C1[of j] by blast
  have a: "a = ?cr 1" unfolding a_def by (simp add: R1 ri)
  have b: "b = ?cc 2" unfolding b_def by (simp add: C1 ci)
  have cr2: "?cr 2 = a + bh"
    unfolding a by (rule count_split) (use R2 R1 R0 bh in \<open>auto simp: is_reachable_def\<close>)
  have cc2: "b = ?cc 1 + bw"
    unfolding b by (rule count_split) (use C3 C2 bw in auto)
  have le1: "a + bh \<le> ?n1" using length_filter_le[of "\<lambda>k. ?rv k < 2" "[0..<?n1]"] cr2 by simp
  have le2: "b \<le> ?n2" using length_filter_le[of "\<lambda>k. ?cv k < 2" "[0..<?n2]"] b by simp
  have bwb: "bw \<le> b" using cc2 by simp
  have wit: "(b + (2 ^ 64 - 1)) mod 2 ^ 64 = b - 1"
  proof -
    from bwb bw have "1 \<le> b" by simp
    moreover from le2 sz have "b - 1 < 2 ^ 64" by simp
    ultimately show ?thesis by (rule wrap_pred)
  qed
  have sep: "fst (no_path_separation ?dim res st) = \<lparr>sep_split = (a, b), sep_witnesses = [(a, b - 1)]\<rparr>"
    using no_path_split[of ?dim res st] wit by (simp add: a b)
  have rows: "\<exists>i0<?n1. m_perm1 (permuted_matrix st') ! i = m_perm1 (permuted_matrix st) ! i0
         \<and> (i < a \<longleftrightarrow> \<not> is_reachable (res ! i0)) \<and> (i < a + bh \<longleftrightarrow> ?rv i0 < 2)" if "i < ?n1" for i
  proof -
    from no_path_rows[OF wf that, of ?dim res] obtain i0 where
      i0: "i0 < ?n1" "m_perm1 (permuted_matrix st') ! i = m_perm1 (permuted_matrix st) ! i0"
      and t: "\<forall>t. i < ?cr t \<longleftrightarrow> ?rv i0 < t" unfolding st'_def by blast
    from t have t1: "i < a \<longleftrightarrow> ?rv i0 < 1" unfolding a by blast
    from t have t2: "i < a + bh \<longleftrightarrow> ?rv i0 < 2" unfolding cr2[symmetric] by blast
    show ?thesis using i0 t1 t2 R1[of i0] by blast
  qed
  have cols: "\<exists>j0<?n2. m_perm2 (permuted_matrix st') ! j = m_perm2 (permuted_matrix st) ! j0
         \<and> (j < b \<longleftrightarrow> \<not> is_reachable (res ! (?n1 + j0))) \<and> (j < b - bw \<longleftrightarrow> ?cv j0 < 1)" if "j < ?n2" for j
  proof -
    from no_path_columns[OF wf that, of ?dim res] obtain j0 where
      j0: "j0 < ?n2" "m_perm2 (permuted_matrix st') ! j = m_perm2 (permuted_matrix st) ! j0"
      and t: "\<forall>t. j < ?cc t \<longleftrightarrow> ?cv j0 < t" unfolding st'_def by blast
    have cc1: "?cc 1 = b - bw" using cc2 by simp
    from t have t1: "j < b - bw \<longleftrightarrow> ?cv j0 < 1" unfolding cc1[symmetric] by blast
    from t have t2: "j < b \<longleftrightarrow> ?cv j0 < 2" unfolding b by blast
    show ?thesis using j0 t1 t2 C1[of j0] by blast
  qed
  have data: "m_data (permuted_matrix st') = m_data (permuted_matrix st)"
    by (simp add: st'_def no_path_fields)
  have noend: "\<not> is_reachable (res ! e)" if "e \<in> set ?ends" for e
    using bfs_correct_found[OF c] that by blast
  have edge_rc: "is_reachable (res ! (?n1 + j0))"
    if "i0 < ?n1" "j0 < ?n2" "is_reachable (res ! i0)" "?M i0 j0 \<noteq> 0" for i0 j0
  proof -
    have adj: "adjacent ?M ?dim i0 (?n1 + j0)"
      using that by (simp add: adjacent_def is_row_def h indexes_to_coordinates_def
          index_to_row_def index_to_column_def)
    have "is_reachable (res ! (?n1 + j0)) \<and> distance (res ! (?n1 + j0)) \<le> distance (res ! i0) + 1"
      by (rule bfs_correct_complete[OF c _ _ that(3) adj]) (use that(1,2) lres noend in auto)
    then show ?thesis by blast
  qed
  have edge_cr: "is_reachable (res ! i0)"
    if "i0 < ?n1" "j0 < ?n2" "is_reachable (res ! (?n1 + j0))" "?M i0 j0 \<noteq> 0" for i0 j0
  proof -
    have adj: "adjacent ?M ?dim (?n1 + j0) i0"
      using that by (simp add: adjacent_def is_row_def h indexes_to_coordinates_def
          index_to_row_def index_to_column_def)
    have "is_reachable (res ! i0) \<and> distance (res ! i0) \<le> distance (res ! (?n1 + j0)) + 1"
      by (rule bfs_correct_complete[OF c _ _ that(3) adj]) (use that(1,2) lres noend in auto)
    then show ?thesis by blast
  qed
  have tr: "entry st' i j = 0" if "i < a" "b \<le> j" "j < ?n2" for i j
  proof -
    from that le1 have i: "i < ?n1" by simp
    from rows[OF i] that obtain i0 where
      i0: "i0 < ?n1" "m_perm1 (permuted_matrix st') ! i = m_perm1 (permuted_matrix st) ! i0"
      "\<not> is_reachable (res ! i0)" by blast
    from cols[OF that(3)] that obtain j0 where
      j0: "j0 < ?n2" "m_perm2 (permuted_matrix st') ! j = m_perm2 (permuted_matrix st) ! j0"
      "is_reachable (res ! (?n1 + j0))" by auto
    have e: "entry st' i j = entry st i0 j0" by (simp add: entry_def data i0 j0)
    from i0(3) R0[of i0] have nb: "\<not> i0 < bh" by (auto simp: is_reachable_def)
    have "?M i0 j0 = 0" using edge_cr[OF i0(1) j0(1) j0(3)] i0(3) by blast
    with nb show ?thesis
      by (simp add: e modified_matrix_def zero_block_matrix_modifier_def)
  qed
  have bl: "entry st' i j = (if i < a + bh \<and> b - bw \<le> j then 1 else 0)"
    if "a \<le> i" "i < ?n1" "j < b" for i j
  proof -
    from that le2 have j: "j < ?n2" by simp
    from rows[OF that(2)] that obtain i0 where
      i0: "i0 < ?n1" "m_perm1 (permuted_matrix st') ! i = m_perm1 (permuted_matrix st) ! i0"
      "is_reachable (res ! i0)" "i < a + bh \<longleftrightarrow> ?rv i0 < 2" by auto
    from cols[OF j] that obtain j0 where
      j0: "j0 < ?n2" "m_perm2 (permuted_matrix st') ! j = m_perm2 (permuted_matrix st) ! j0"
      "\<not> is_reachable (res ! (?n1 + j0))" "j < b - bw \<longleftrightarrow> ?cv j0 < 1" by auto
    have e: "entry st' i j = entry st i0 j0" by (simp add: entry_def data i0 j0)
    have m0: "?M i0 j0 = 0" using edge_rc[OF i0(1) j0(1) i0(3)] j0(3) by blast
    have pi: "i < a + bh \<longleftrightarrow> i0 < bh"
      using i0(4) R2[OF i0(1)] R1[of i0] i0(3) by blast
    have pj: "b - bw \<le> j \<longleftrightarrow> j0 < bw"
      using j0(4) C2[OF j0(1)] j0(3) by auto
    show ?thesis
    proof (cases "i0 < bh \<and> j0 < bw")
      case True
      with ones[of i0 j0] show ?thesis by (simp add: e pi pj)
    next
      case False
      with m0 have "entry st i0 j0 = 0"
        by (auto simp: modified_matrix_def zero_block_matrix_modifier_def)
      with False show ?thesis by (simp add: e pi pj)
    qed
  qed
  have witness: "entry st' a (b - 1) = 1"
    using bl[of a "b - 1"] le1 bh bw bwb by simp
  show ?thesis
    apply (intro conjI)
            apply (rule sep)
           apply (rule le1)
          apply (rule bwb)
         apply (rule le2)
    subgoal using rows by (auto simp: ri)
    subgoal using cols by (auto simp: ci)
    subgoal using tr by blast
    subgoal using bl by blast
    apply (rule witness)
    done
qed

lemma demo_split_wf: "well_formed demo_split_wheel"
  by (simp add: well_formed_def demo_split_wheel_def upt_conv_Cons numeral_2_eq_2 numeral_3_eq_3)

lemma demo_split_grow: "grow_block demo_split_wheel = Inr (Block demo_split_wheel 2 2)"
  by (simp add: grow_block_def demo_split_wheel_def Let_def matroid_reorder_columns_def
     matroid_reorder_rows_def reorder_def matrix_count_property_column_series_def
     matrix_count_property_row_series_def entry_def is_non_zero_def is_all_ones_def
     pivot_and_record_def upt_conv_Cons sort_key_def)

lemma demo_split_search: "search_correct demo_split_bfs demo_split_wheel 2 2"
  by code_simp

lemma demo_split_search_result:
  "wheel_search demo_split_bfs demo_split_wheel 2 2 = (False, demo_split_nodes)"
  by (simp add: wheel_search_def demo_split_bfs_def)

lemma demo_split_dim: "wheel_dim demo_split_wheel = \<lparr>height = 3, width = 4\<rparr>"
  by (simp add: wheel_dim_def demo_split_wheel_def)

lemma demo_split_run:
  "no_path_separation \<lparr>height = 3, width = 4\<rparr> demo_split_nodes demo_split_wheel
     = (\<lparr>sep_split = (1, 3), sep_witnesses = [(1, 2)]\<rparr>, demo_split_result)"
  by (simp add: no_path_separation_def Let_def demo_split_wheel_def demo_split_result_def
      demo_split_nodes_def row_value_def column_value_def row_to_index_def column_to_index_def
      is_reachable_def separation2_def upt_conv_Cons sort_key_def)

text \<open>
  Claim C8. When the search finds no path from the block rows to a block column,
  \<^verbatim>\<open>find_wheel_minor\<close> returns a separation that is not the empty one, whose split is
  the number of rows and the number of columns that the search did not reach, with the
  witness at the first row and the last column after them. The permuted matrix keeps its
  entries underneath, its rows and columns are permuted, the permuted matroid has the
  same permutations, the rows that were not reached stand on top and the columns that
  were not reached on the left. The separation has order at most 2: above and right of
  the split all entries are zero, and below and left of it the entries are one in the
  rows of the block and the columns of the block and zero elsewhere, so that this part
  has rank one; the witness is one of its ones. The numbers of columns are those of the
  type \<^verbatim>\<open>size_t\<close>.
\<close>

theorem no_path_separation_certified:
  assumes wf: "well_formed st" and g: "grow_block st = Inr (Block st5 bh bw)"
    and sc: "search_correct bfs st5 bh bw" and nf: "\<not> fst (wheel_search bfs st5 bh bw)"
    and sz: "m_size2 (permuted_matrix st5) < 2 ^ 64"
  defines "res \<equiv> snd (wheel_search bfs st5 bh bw)"
  defines "a \<equiv> length (filter (\<lambda>i. \<not> is_reachable (res ! row_to_index (wheel_dim st5) i))
                          [0..<m_size1 (permuted_matrix st5)])"
  defines "b \<equiv> length (filter (\<lambda>j. \<not> is_reachable (res ! column_to_index (wheel_dim st5) j))
                          [0..<m_size2 (permuted_matrix st5)])"
  shows "\<exists>sep st'. find_wheel_minor bfs st = Some (Inr (sep, st'))
     \<and> sep = \<lparr>sep_split = (a, b), sep_witnesses = [(a, b - 1)]\<rparr> \<and> sep \<noteq> separation_empty
     \<and> a + bh \<le> m_size1 (permuted_matrix st5) \<and> bw \<le> b \<and> b \<le> m_size2 (permuted_matrix st5)
     \<and> 2 \<le> bh \<and> 2 \<le> bw
     \<and> m_data (permuted_matrix st') = m_data (permuted_matrix st5)
     \<and> mset (m_perm1 (permuted_matrix st')) = mset (m_perm1 (permuted_matrix st5))
     \<and> mset (m_perm2 (permuted_matrix st')) = mset (m_perm2 (permuted_matrix st5))
     \<and> o_perm1 (permuted_matroid st') = m_perm1 (permuted_matrix st')
     \<and> o_perm2 (permuted_matroid st') = m_perm2 (permuted_matrix st')
     \<and> (\<forall>i<m_size1 (permuted_matrix st5). \<exists>i0<m_size1 (permuted_matrix st5).
           m_perm1 (permuted_matrix st') ! i = m_perm1 (permuted_matrix st5) ! i0
         \<and> (i < a \<longleftrightarrow> \<not> is_reachable (res ! row_to_index (wheel_dim st5) i0)))
     \<and> (\<forall>j<m_size2 (permuted_matrix st5). \<exists>j0<m_size2 (permuted_matrix st5).
           m_perm2 (permuted_matrix st') ! j = m_perm2 (permuted_matrix st5) ! j0
         \<and> (j < b \<longleftrightarrow> \<not> is_reachable (res ! column_to_index (wheel_dim st5) j0)))
     \<and> (\<forall>i j. i < a \<and> b \<le> j \<and> j < m_size2 (permuted_matrix st5) \<longrightarrow> entry st' i j = 0)
     \<and> (\<forall>i j. a \<le> i \<and> i < m_size1 (permuted_matrix st5) \<and> j < b \<longrightarrow>
           entry st' i j = (if i < a + bh \<and> b - bw \<le> j then 1 else 0))
     \<and> entry st' a (b - 1) = 1"
proof -
  from grow_block_bounds[OF wf g] have wf5: "well_formed st5"
    and bh: "2 \<le> bh" "bh \<le> m_size1 (permuted_matrix st5)"
    and bw: "2 \<le> bw" "bw \<le> m_size2 (permuted_matrix st5)" by simp_all
  have pair: "wheel_search bfs st5 bh bw = (False, res)"
    using nf by (simp add: res_def prod_eq_iff)
  from sc have c: "bfs_correct (modified_matrix st5 bh bw) (wheel_dim st5)
              (wheel_start_nodes st5 bh) (wheel_end_nodes st5 bw) (False, res)"
    by (simp add: search_correct_def pair)
  have run: "find_wheel_minor bfs st = Some (Inr (no_path_separation (wheel_dim st5) res st5))"
    using find_wheel_minor_Block[OF g, of bfs] bfs_correct_length[OF c] nf
    by (simp add: res_def)
  let ?sep = "fst (no_path_separation (wheel_dim st5) res st5)"
  let ?st' = "snd (no_path_separation (wheel_dim st5) res st5)"
  note cert = no_path_certificate[OF wf5 bh bw c grow_block_ones[OF wf g] sz,
      folded a_def b_def]
  have ne: "\<lparr>sep_split = (a, b), sep_witnesses = [(a, b - 1)]\<rparr> \<noteq> separation_empty"
    by (simp add: separation_empty_def)
  show ?thesis
    apply (rule exI[of _ ?sep], rule exI[of _ ?st'])
    apply (intro conjI)
    subgoal using run by simp
    subgoal by (rule cert[THEN conjunct1])
    subgoal using ne by (simp add: cert[THEN conjunct1])
    subgoal by (rule cert[THEN conjunct2, THEN conjunct1])
    subgoal by (rule cert[THEN conjunct2, THEN conjunct2, THEN conjunct1])
    subgoal by (rule cert[THEN conjunct2, THEN conjunct2, THEN conjunct2, THEN conjunct1])
    subgoal by (rule bh(1))
    subgoal by (rule bw(1))
    subgoal by (rule no_path_fields)
    subgoal by (rule no_path_fields)
    subgoal by (rule no_path_fields)
    subgoal by (rule no_path_fields)
    subgoal by (rule no_path_fields)
    subgoal by (rule cert[THEN conjunct2, THEN conjunct2, THEN conjunct2, THEN conjunct2, THEN conjunct1])
    subgoal by (rule cert[THEN conjunct2, THEN conjunct2, THEN conjunct2, THEN conjunct2, THEN conjunct2,
            THEN conjunct1])
    subgoal by (rule cert[THEN conjunct2, THEN conjunct2, THEN conjunct2, THEN conjunct2, THEN conjunct2,
            THEN conjunct2, THEN conjunct1])
    subgoal by (rule cert[THEN conjunct2, THEN conjunct2, THEN conjunct2, THEN conjunct2, THEN conjunct2,
            THEN conjunct2, THEN conjunct2, THEN conjunct1])
    subgoal by (rule cert[THEN conjunct2, THEN conjunct2, THEN conjunct2, THEN conjunct2, THEN conjunct2,
            THEN conjunct2, THEN conjunct2, THEN conjunct2])
    done
qed

lemma demo_split_find:
  "find_wheel_minor demo_split_bfs demo_split_wheel
     = Some (Inr (\<lparr>sep_split = (1, 3), sep_witnesses = [(1, 2)]\<rparr>, demo_split_result))"
proof -
  have l: "length demo_split_nodes = 7" by (simp add: demo_split_nodes_def)
  show ?thesis
    unfolding find_wheel_minor_Block[OF demo_split_grow] demo_split_search_result demo_split_dim
    by (simp add: l demo_split_run)
qed

lemma demo_split_counts:
  "length (filter (\<lambda>i. \<not> is_reachable (demo_split_nodes ! row_to_index \<lparr>height = 3, width = 4\<rparr> i))
             [0..<3]) = 1"
  "length (filter (\<lambda>j. \<not> is_reachable (demo_split_nodes ! column_to_index \<lparr>height = 3, width = 4\<rparr> j))
             [0..<4]) = 3"
  by (simp_all add: demo_split_wheel_def demo_split_nodes_def row_to_index_def column_to_index_def
      is_reachable_def upt_conv_Cons)

theorem no_path_separation_certified_witness:
  "well_formed demo_split_wheel \<and> grow_block demo_split_wheel = Inr (Block demo_split_wheel 2 2)
   \<and> search_correct demo_split_bfs demo_split_wheel 2 2
   \<and> wheel_search demo_split_bfs demo_split_wheel 2 2 = (False, demo_split_nodes)
   \<and> find_wheel_minor demo_split_bfs demo_split_wheel
        = Some (Inr (\<lparr>sep_split = (1, 3), sep_witnesses = [(1, 2)]\<rparr>, demo_split_result))
   \<and> m_perm1 (permuted_matrix demo_split_result) = [2, 0, 1]
   \<and> m_perm2 (permuted_matrix demo_split_result) = [3, 0, 1, 2]
   \<and> o_perm1 (permuted_matroid demo_split_result) = [2, 0, 1]
   \<and> o_perm2 (permuted_matroid demo_split_result) = [3, 0, 1, 2]
   \<and> entry demo_split_result 0 3 = 0
   \<and> entry demo_split_result 1 0 = 0 \<and> entry demo_split_result 1 1 = 1 \<and> entry demo_split_result 1 2 = 1
   \<and> entry demo_split_result 2 0 = 0 \<and> entry demo_split_result 2 1 = 1 \<and> entry demo_split_result 2 2 = 1"
proof -
  have nf: "\<not> fst (wheel_search demo_split_bfs demo_split_wheel 2 2)"
    by (simp add: demo_split_search_result)
  have sz: "m_size2 (permuted_matrix demo_split_wheel) < 2 ^ 64"
    by (simp add: demo_split_wheel_def)
  have n: "m_size1 (permuted_matrix demo_split_wheel) = 3" "m_size2 (permuted_matrix demo_split_wheel) = 4"
    by (simp_all add: demo_split_wheel_def)
  note T = no_path_separation_certified[OF demo_split_wf demo_split_grow demo_split_search nf sz,
      unfolded demo_split_search_result snd_conv demo_split_dim n demo_split_counts demo_split_find]
  from T obtain sep st' where
    r: "Some (Inr (\<lparr>sep_split = (1, 3), sep_witnesses = [(1, 2)]\<rparr>, demo_split_result))
          = Some (Inr (sep, st') :: failure + separation \<times> wheel_state)"
    and o: "o_perm1 (permuted_matroid st') = m_perm1 (permuted_matrix st')"
      "o_perm2 (permuted_matroid st') = m_perm2 (permuted_matrix st')"
    and tr: "\<forall>i j. i < 1 \<and> 3 \<le> j \<and> j < 4 \<longrightarrow> entry st' i j = 0"
    and bl: "\<forall>i j. 1 \<le> i \<and> i < 3 \<and> j < 3 \<longrightarrow> entry st' i j = (if i < 1 + 2 \<and> 3 - 2 \<le> j then 1 else 0)"
    by (elim exE conjE) (rule that, assumption+)
  from r have st': "st' = demo_split_result" by simp
  have p: "m_perm1 (permuted_matrix demo_split_result) = [2, 0, 1]"
    "m_perm2 (permuted_matrix demo_split_result) = [3, 0, 1, 2]"
    by (simp_all add: demo_split_result_def)
  from o p have q: "o_perm1 (permuted_matroid demo_split_result) = [2, 0, 1]"
    "o_perm2 (permuted_matroid demo_split_result) = [3, 0, 1, 2]"
    by (simp_all add: st')
  from tr[rule_format, of 0 3] have e0: "entry demo_split_result 0 3 = 0" by (simp add: st')
  from bl[rule_format, of 1 0] bl[rule_format, of 1 1] bl[rule_format, of 1 2]
    bl[rule_format, of 2 0] bl[rule_format, of 2 1] bl[rule_format, of 2 2]
  have e: "entry demo_split_result 1 0 = 0" "entry demo_split_result 1 1 = 1"
    "entry demo_split_result 1 2 = 1" "entry demo_split_result 2 0 = 0"
    "entry demo_split_result 2 1 = 1" "entry demo_split_result 2 2 = 1"
    by (simp_all add: st')
  show ?thesis
    using demo_split_wf demo_split_grow demo_split_search demo_split_search_result demo_split_find
      p q e0 e
    by (intro conjI)
qed

lemma binary_matrixD:
  "binary_matrix st \<Longrightarrow> i < m_size1 (permuted_matrix st) \<Longrightarrow> j < m_size2 (permuted_matrix st) \<Longrightarrow>
     entry st i j = 0 \<or> entry st i j = 1"
  by (simp add: binary_matrix_def list_all_iff)

lemma binary_matrixI:
  "(\<And>i j. i < m_size1 (permuted_matrix st) \<Longrightarrow> j < m_size2 (permuted_matrix st) \<Longrightarrow>
     entry st i j = 0 \<or> entry st i j = 1) \<Longrightarrow> binary_matrix st"
  by (simp add: binary_matrix_def list_all_iff)




lemma entry_pivot:
  "entry (pivot_and_record st (r, c)) i j =
     (if m_perm1 (permuted_matrix st) ! i < m_size1 (permuted_matrix st)
       \<and> m_perm2 (permuted_matrix st) ! j < m_size2 (permuted_matrix st)
       \<and> m_perm1 (permuted_matrix st) ! i \<noteq> m_perm1 (permuted_matrix st) ! r
       \<and> m_perm2 (permuted_matrix st) ! j \<noteq> m_perm2 (permuted_matrix st) ! c
       \<and> entry st i c \<noteq> 0 \<and> entry st r j \<noteq> 0
      then 1 - entry st i j else entry st i j)"
  by (simp add: entry_def pivot_and_record_def matroid_binary_pivot_def binary_pivot_data_def Let_def)




lemma binary_pivot:
  assumes "binary_matrix st"
  shows "binary_matrix (pivot_and_record st c)"
proof (rule binary_matrixI)
  fix i j
  assume "i < m_size1 (permuted_matrix (pivot_and_record st c))"
    "j < m_size2 (permuted_matrix (pivot_and_record st c))"
  then have "i < m_size1 (permuted_matrix st)" "j < m_size2 (permuted_matrix st)"
    by (simp_all add: pivot_and_record_frame)
  from binary_matrixD[OF assms this]
  show "entry (pivot_and_record st c) i j = 0 \<or> entry (pivot_and_record st c) i j = 1"
    by (cases c) (auto simp: entry_pivot)
qed

lemma binary_pivots: "binary_matrix st \<Longrightarrow> binary_matrix (foldl pivot_and_record st cs)"
  by (induction cs arbitrary: st) (simp_all add: binary_pivot)














































end
